theory Spec2Isabelle
  imports Complex_Main "HOL-Library.Char_ord" "HOL-Library.List_Lexorder" "HOL-Library.Multiset"
begin

section \<open>Helper utilities of the sequence-labelling experiment (utilities.py)\<close>

text \<open>
  Python exceptions are values of the type \<open>error\<close>; a function that may raise returns
  \<open>error + 'a\<close> with \<open>Inl\<close> for the exception. Python floats are idealised as
  reals; the one non-finite value the code can produce by itself, the \<open>nan\<close> that
  \<open>np.mean\<close> returns on an empty array, is the constructor \<open>NaN\<close>.
\<close>

datatype error = TypeError | IndexError | KeyError | ValueError | CsvError

datatype npfloat = Val real | NaN

subsection \<open>numpy reductions\<close>

text \<open>\<open>np.mean\<close> of an empty sequence is \<open>nan\<close> (with a warning, not an exception).\<close>

definition np_mean :: "real list \<Rightarrow> npfloat" where
  "np_mean xs = (if xs = [] then NaN else Val (sum_list xs / real (length xs)))"

text \<open>\<open>np.min\<close> and \<open>np.max\<close> of an empty sequence raise ValueError.\<close>

definition np_min :: "real list \<Rightarrow> error + real" where
  "np_min xs = (case xs of [] \<Rightarrow> Inl ValueError | x # ys \<Rightarrow> Inr (fold min ys x))"

definition np_max :: "real list \<Rightarrow> error + real" where
  "np_max xs = (case xs of [] \<Rightarrow> Inl ValueError | x # ys \<Rightarrow> Inr (fold max ys x))"

subsection \<open>EpochStats\<close>

text \<open>
  The stored predictions and golds are lists whose entries are per-sample lists (what
  \<open>step\<close> appends) or, in state saved by older runs, plain class ids.
\<close>

datatype pyval = I int | L "int list"

record EpochStats =
  sizes :: "int list"
  losses :: "real list"
  ner_losses :: "real list"
  dep_losses :: "real list"
  probs :: "real list list"
  preds :: "pyval list"
  golds :: "pyval list"

definition EpochStats_init :: EpochStats where
  "EpochStats_init =
     \<lparr>sizes = [], losses = [], ner_losses = [], dep_losses = [],
      probs = [], preds = [], golds = []\<rparr>"

definition loss_step :: "EpochStats \<Rightarrow> real \<Rightarrow> real \<Rightarrow> real \<Rightarrow> int \<Rightarrow> EpochStats" where
  "loss_step self l ner_loss dep_loss batch_size =
     self\<lparr>losses := losses self @ [l],
          ner_losses := ner_losses self @ [ner_loss],
          dep_losses := dep_losses self @ [dep_loss],
          sizes := sizes self @ [batch_size]\<rparr>"

text \<open>
  \<open>[l for l, s in zip(losses, self.sizes) for _ in range(s)]\<close>: \<open>range(s)\<close> is empty
  for \<open>s \<le> 0\<close>.
\<close>

definition repeat_by_size :: "real list \<Rightarrow> int list \<Rightarrow> real list" where
  "repeat_by_size ls szs = concat (map (\<lambda>(l, s). replicate (nat s) l) (zip ls szs))"

text \<open>
  The tuple is evaluated left to right: the mean first (never raises), then the minimum,
  then the maximum.
\<close>

definition loss :: "EpochStats \<Rightarrow> string \<Rightarrow> error + (npfloat \<times> real \<times> real)" where
  "loss self loss_type =
     (let ls = (if loss_type = ''ner'' then ner_losses self
                else if loss_type = ''dep'' then dep_losses self
                else losses self);
          m = np_mean (repeat_by_size ls (sizes self))
      in case np_min ls of
           Inl e \<Rightarrow> Inl e
         | Inr lo \<Rightarrow> (case np_max ls of Inl e \<Rightarrow> Inl e | Inr hi \<Rightarrow> Inr (m, lo, hi)))"

text \<open>A recorded history: the batches passed to \<open>loss_step\<close>, in call order.\<close>

record batch =
  b_loss :: real
  b_ner :: real
  b_dep :: real
  b_size :: int

definition record_all :: "batch list \<Rightarrow> EpochStats" where
  "record_all bs =
     foldl (\<lambda>s b. loss_step s (b_loss b) (b_ner b) (b_dep b) (b_size b)) EpochStats_init bs"

text \<open>The values of one kind, each repeated as often as its batch is large.\<close>

definition repeated :: "(batch \<Rightarrow> real) \<Rightarrow> batch list \<Rightarrow> real list" where
  "repeated sel bs = concat (map (\<lambda>b. replicate (nat (b_size b)) (sel b)) bs)"

definition weighted_mean :: "(batch \<Rightarrow> real) \<Rightarrow> batch list \<Rightarrow> real" where
  "weighted_mean sel bs =
     (\<Sum>b\<leftarrow>bs. sel b * real_of_int (b_size b)) / real_of_int (\<Sum>b\<leftarrow>bs. b_size b)"

subsection \<open>EpochStats.step\<close>

text \<open>
  A comprehension or library loop whose body may raise stops at the first exception.
\<close>

fun mapM_err :: "('a \<Rightarrow> error + 'b) \<Rightarrow> 'a list \<Rightarrow> error + 'b list" where
  "mapM_err f [] = Inr []"
| "mapM_err f (x # xs) =
     (case f x of
        Inl e \<Rightarrow> Inl e
      | Inr y \<Rightarrow> (case mapM_err f xs of Inl e \<Rightarrow> Inl e | Inr ys \<Rightarrow> Inr (y # ys)))"

text \<open>
  Tensors are nested lists: \<open>scores\<close> is batch by token by class, \<open>target\<close> and
  \<open>mask\<close> are batch by token. A boolean mask entry is 1 for true and 0 for false, as
  the comparison \<open>mask[i] == 1\<close> reads it.

  \<open>scores.max(dim=2)\<close> returns, for each token, the largest class score and the first
  index where it occurs; torch raises IndexError when the class dimension is empty.
\<close>

definition max_dim :: "real list \<Rightarrow> error + (real \<times> int)" where
  "max_dim v =
     (case v of
        [] \<Rightarrow> Inl IndexError
      | x # xs \<Rightarrow>
          (let m = fold max xs x in Inr (m, int (length (takeWhile (\<lambda>y. y \<noteq> m) v)))))"

definition scores_max :: "real list list list \<Rightarrow> error + (real list list \<times> int list list)" where
  "scores_max scores =
     (case mapM_err (mapM_err max_dim) scores of
        Inl e \<Rightarrow> Inl e
      | Inr vs \<Rightarrow> Inr (map (map fst) vs, map (map snd) vs))"

text \<open>\<open>t[i]\<close> on the first dimension of a tensor, for \<open>i\<close> from \<open>range\<close>.\<close>

definition tensor_row :: "'a list \<Rightarrow> nat \<Rightarrow> error + 'a" where
  "tensor_row t i = (if i < length t then Inr (t ! i) else Inl IndexError)"

text \<open>
  \<open>row[m == 1]\<close>: boolean-mask indexing keeps the entries at the true positions, in
  order; torch raises IndexError when mask and row differ in length.
\<close>

definition masked_select :: "'a list \<Rightarrow> int list \<Rightarrow> error + 'a list" where
  "masked_select row m =
     (if length m \<noteq> length row then Inl IndexError
      else Inr (map fst (filter (\<lambda>(x, b). b = 1) (zip row m))))"

fun step_samples ::
  "EpochStats \<Rightarrow> real list list \<Rightarrow> int list list \<Rightarrow> int list list \<Rightarrow> int list list
     \<Rightarrow> nat list \<Rightarrow> error + EpochStats" where
  "step_samples self probs_t classes_t target mask_t [] = Inr self"
| "step_samples self probs_t classes_t target mask_t (i # rest) =
     (case tensor_row probs_t i of Inl e \<Rightarrow> Inl e | Inr probs_row \<Rightarrow>
      case tensor_row mask_t i of Inl e \<Rightarrow> Inl e | Inr mask_row \<Rightarrow>
      case masked_select probs_row mask_row of Inl e \<Rightarrow> Inl e | Inr prob_i \<Rightarrow>
      case tensor_row classes_t i of Inl e \<Rightarrow> Inl e | Inr classes_row \<Rightarrow>
      case masked_select classes_row mask_row of Inl e \<Rightarrow> Inl e | Inr pred_i \<Rightarrow>
      case tensor_row target i of Inl e \<Rightarrow> Inl e | Inr target_row \<Rightarrow>
      case masked_select target_row mask_row of Inl e \<Rightarrow> Inl e | Inr gold_i \<Rightarrow>
        step_samples
          (self\<lparr>preds := preds self @ [L pred_i],
                golds := golds self @ [L gold_i],
                probs := probs self @ [prob_i]\<rparr>)
          probs_t classes_t target mask_t rest)"

definition step ::
  "EpochStats \<Rightarrow> real list list list \<Rightarrow> int list list \<Rightarrow> int list list
     \<Rightarrow> real \<Rightarrow> real \<Rightarrow> real \<Rightarrow> error + EpochStats" where
  "step self scores target mask_t l ner_loss dep_loss =
     (let self1 = loss_step self l ner_loss dep_loss (int (length scores))
      in case scores_max scores of
           Inl e \<Rightarrow> Inl e
         | Inr (probs_t, classes_t) \<Rightarrow>
             step_samples self1 probs_t classes_t target mask_t [0..<length scores])"

text \<open>
  The inputs of \<open>step\<close> that are tensors of matching shapes: a target row and a mask
  row for every sample, each as long as the sample's token sequence, and at least one
  class per token.
\<close>

definition well_shaped :: "real list list list \<Rightarrow> int list list \<Rightarrow> int list list \<Rightarrow> bool" where
  "well_shaped scores target mask_t \<longleftrightarrow>
     length target = length scores \<and> length mask_t = length scores \<and>
     (\<forall>i < length scores.
        length (target ! i) = length (scores ! i) \<and>
        length (mask_t ! i) = length (scores ! i) \<and>
        (\<forall>v \<in> set (scores ! i). v \<noteq> []))"

text \<open>The values \<open>f j\<close> at the positions \<open>j\<close> where the mask row is true, in order.\<close>

definition at_true :: "int list \<Rightarrow> (nat \<Rightarrow> 'a) \<Rightarrow> 'a list" where
  "at_true m f = map f (filter (\<lambda>j. m ! j = 1) [0..<length m])"

text \<open>\<open>c\<close> is an index of a largest entry of \<open>v\<close>.\<close>

definition is_argmax :: "real list \<Rightarrow> int \<Rightarrow> bool" where
  "is_argmax v c \<longleftrightarrow> 0 \<le> c \<and> nat c < length v \<and> v ! nat c = Max (set v)"

definition argmax :: "real list \<Rightarrow> int" where
  "argmax v = int (length (takeWhile (\<lambda>y. y \<noteq> Max (set v)) v))"

text \<open>Sample \<open>i\<close> has a row in each tensor, all of one length.\<close>

definition rows_fit ::
  "real list list \<Rightarrow> int list list \<Rightarrow> int list list \<Rightarrow> int list list \<Rightarrow> nat \<Rightarrow> bool" where
  "rows_fit P C target mask_t i \<longleftrightarrow>
     i < length P \<and> i < length C \<and> i < length target \<and> i < length mask_t
     \<and> length (mask_t ! i) = length (P ! i) \<and> length (mask_t ! i) = length (C ! i)
     \<and> length (mask_t ! i) = length (target ! i)"

text \<open>The loss values that \<open>loss\<close> reads for a given \<open>loss_type\<close>.\<close>

definition selected :: "string \<Rightarrow> batch \<Rightarrow> real" where
  "selected k = (if k = ''ner'' then b_ner else if k = ''dep'' then b_dep else b_loss)"

subsection \<open>EpochStats._map_to_labels\<close>

text \<open>
  \<open>index2label\<close> is a list indexed by class id or a dict from class id to label. A
  mapped entry is a label (flat storage) or a list of labels (nested storage).
\<close>

datatype index2label = LabelList "string list" | LabelDict "(int \<times> string) list"

datatype labelval = S string | SL "string list"

text \<open>\<open>xs[i]\<close> on a Python list: a negative index counts from the end.\<close>

definition py_index :: "'a list \<Rightarrow> int \<Rightarrow> error + 'a" where
  "py_index xs i =
     (if i < - int (length xs) \<or> int (length xs) \<le> i then Inl IndexError
      else if i < 0 then Inr (xs ! nat (int (length xs) + i))
      else Inr (xs ! nat i))"

text \<open>\<open>index2label[j]\<close>: IndexError from a list, KeyError from a dict.\<close>

definition lookup_label :: "index2label \<Rightarrow> int \<Rightarrow> error + string" where
  "lookup_label index2label j =
     (case index2label of
        LabelList ls \<Rightarrow> py_index ls j
      | LabelDict d \<Rightarrow> (case map_of d j of None \<Rightarrow> Inl KeyError | Some l \<Rightarrow> Inr l))"

text \<open>
  \<open>[index2label[j] for j in i]\<close>: iterating over an entry that is a plain id raises
  TypeError.
\<close>

definition map_nested_entry :: "index2label \<Rightarrow> pyval \<Rightarrow> error + labelval" where
  "map_nested_entry index2label e =
     (case e of
        I n \<Rightarrow> Inl TypeError
      | L js \<Rightarrow> (case mapM_err (lookup_label index2label) js of
                   Inl err \<Rightarrow> Inl err | Inr ls \<Rightarrow> Inr (SL ls)))"

text \<open>
  \<open>index2label[i]\<close>: an entry that is a list is no index of a list and no key of a
  dict, which raises TypeError.
\<close>

definition map_flat_entry :: "index2label \<Rightarrow> pyval \<Rightarrow> error + labelval" where
  "map_flat_entry index2label e =
     (case e of
        I n \<Rightarrow> (case lookup_label index2label n of Inl err \<Rightarrow> Inl err | Inr l \<Rightarrow> Inr (S l))
      | L js \<Rightarrow> Inl TypeError)"

text \<open>The golds are mapped first, then the predictions; the first exception ends both.\<close>

definition map_both ::
  "(pyval \<Rightarrow> error + labelval) \<Rightarrow> EpochStats \<Rightarrow> error + (labelval list \<times> labelval list)" where
  "map_both f self =
     (case mapM_err f (golds self) of
        Inl e \<Rightarrow> Inl e
      | Inr g \<Rightarrow> (case mapM_err f (preds self) of Inl e \<Rightarrow> Inl e | Inr p \<Rightarrow> Inr (g, p)))"

text \<open>
  The \<open>try\<close> block maps both lists as nested; \<open>except TypeError\<close> maps both as
  flat; any other exception propagates.
\<close>

definition map_to_labels ::
  "EpochStats \<Rightarrow> index2label \<Rightarrow> error + (labelval list \<times> labelval list)" where
  "map_to_labels self index2label =
     (case map_both (map_nested_entry index2label) self of
        Inl TypeError \<Rightarrow> map_both (map_flat_entry index2label) self
      | Inl e \<Rightarrow> Inl e
      | Inr r \<Rightarrow> Inr r)"

text \<open>The label of a class id that \<open>index2label\<close> knows.\<close>

definition label :: "index2label \<Rightarrow> int \<Rightarrow> string" where
  "label index2label j = (case lookup_label index2label j of Inr l \<Rightarrow> l | Inl e \<Rightarrow> [])"

definition known_id :: "index2label \<Rightarrow> int \<Rightarrow> bool" where
  "known_id index2label j = (case lookup_label index2label j of Inr l \<Rightarrow> True | Inl e \<Rightarrow> False)"

subsection \<open>printcr\<close>

text \<open>
  A classification report is a dict from class label to a dict from metric name to value;
  both are association lists, in key order. The flag \<open>dflt\<close> says whether the report is
  a \<open>defaultdict(dict)\<close>, as \<open>report2dict\<close> builds it, where a missing label reads as
  the empty dict, or a plain dict, where it raises KeyError.
\<close>

type_synonym metrics = "(string \<times> real) list"

type_synonym report = "(string \<times> metrics) list"

datatype cell = Str string | Num real

definition headers :: "string list" where
  "headers = [''classes'', ''precision'', ''recall'', ''f1-score'', ''support'']"

definition report_get :: "bool \<Rightarrow> report \<Rightarrow> string \<Rightarrow> error + metrics" where
  "report_get dflt report c =
     (case map_of report c of
        Some d \<Rightarrow> Inr d
      | None \<Rightarrow> if dflt then Inr [] else Inl KeyError)"

text \<open>The sort key \<open>report[c]['support']\<close>.\<close>

definition support_key :: "bool \<Rightarrow> report \<Rightarrow> string \<Rightarrow> error + real" where
  "support_key dflt report c =
     (case report_get dflt report c of
        Inl e \<Rightarrow> Inl e
      | Inr d \<Rightarrow> (case map_of d ''support'' of None \<Rightarrow> Inl KeyError | Some v \<Rightarrow> Inr v))"

text \<open>
  \<open>sorted(classes, key=..., reverse=True)\<close> with the keys already computed: the list is
  reversed, sorted stably in ascending order, and reversed again, so that classes with
  equal keys keep their order.
\<close>

definition sorted_reverse :: "real list \<Rightarrow> string list \<Rightarrow> string list" where
  "sorted_reverse ks cs = map snd (rev (sort_key fst (rev (zip ks cs))))"

text \<open>
  The cells after the label: for each header that the class's metrics contain, the value,
  scaled by 100 for precision, recall and f1-score.
\<close>

definition row_cells :: "metrics \<Rightarrow> cell list" where
  "row_cells d =
     List.map_filter
       (\<lambda>h. case map_of d h of
              None \<Rightarrow> None
            | Some v \<Rightarrow>
                Some (Num (if h \<in> {''precision'', ''recall'', ''f1-score''} then v * 100 else v)))
       headers"

text \<open>The rows that one class adds to the table: an empty row first for \<open>macro avg\<close>.\<close>

definition class_rows :: "bool \<Rightarrow> report \<Rightarrow> string \<Rightarrow> error + cell list list" where
  "class_rows dflt report c =
     (case report_get dflt report c of
        Inl e \<Rightarrow> Inl e
      | Inr d \<Rightarrow> Inr ((if c = ''macro avg'' then [[]] else []) @ [Str c # row_cells d]))"

definition choose_classes ::
  "bool \<Rightarrow> report \<Rightarrow> string list option \<Rightarrow> bool \<Rightarrow> error + string list" where
  "choose_classes dflt report classes sort_by_support =
     (case classes of
        Some cs \<Rightarrow> Inr cs
      | None \<Rightarrow>
          (let cs = filter (\<lambda>k. k \<notin> {''macro avg'', ''micro avg''}) (map fst report)
           in if sort_by_support
              then (case mapM_err (support_key dflt report) cs of
                      Inl e \<Rightarrow> Inl e
                    | Inr ks \<Rightarrow> Inr (sorted_reverse ks cs))
              else Inr (sort cs)))"

text \<open>
  \<open>printcr\<close> returns the table that it hands to \<open>tabulate\<close> for printing: a list of
  rows, a row being a list of cells.
\<close>

definition printcr ::
  "bool \<Rightarrow> report \<Rightarrow> string list option \<Rightarrow> bool \<Rightarrow> error + cell list list" where
  "printcr dflt report classes sort_by_support =
     (case choose_classes dflt report classes sort_by_support of
        Inl e \<Rightarrow> Inl e
      | Inr cs \<Rightarrow>
          (let cs1 = (if ''macro avg'' \<notin> set cs then cs @ [''macro avg''] else cs);
               cs2 = (if ''micro avg'' \<notin> set cs1 then cs1 @ [''micro avg''] else cs1)
           in case mapM_err (class_rows dflt report) cs2 of
                Inl e \<Rightarrow> Inl e
              | Inr rs \<Rightarrow> Inr (concat rs)))"

text \<open>The metrics, the support and the table row of a class of the report.\<close>

definition metrics_of :: "report \<Rightarrow> string \<Rightarrow> metrics" where
  "metrics_of report c = (case map_of report c of Some d \<Rightarrow> d | None \<Rightarrow> [])"

definition support_of :: "report \<Rightarrow> string \<Rightarrow> real" where
  "support_of report c = (case map_of (metrics_of report c) ''support'' of Some v \<Rightarrow> v | None \<Rightarrow> 0)"

definition has_support :: "report \<Rightarrow> string \<Rightarrow> bool" where
  "has_support report c = (map_of (metrics_of report c) ''support'' \<noteq> None)"

definition table_row :: "report \<Rightarrow> string \<Rightarrow> cell list" where
  "table_row report c = Str c # row_cells (metrics_of report c)"

definition class_labels :: "report \<Rightarrow> string list" where
  "class_labels report = filter (\<lambda>k. k \<noteq> ''macro avg'' \<and> k \<noteq> ''micro avg'') (map fst report)"

subsection \<open>CoNLL files\<close>

text \<open>
  A file is the text it holds; opening, closing and creating directories are not
  modelled. Characters are code points below 256. The csv module is the one of Python
  3.11 and later, where NUL is an ordinary character.
\<close>

abbreviation LF :: char where "LF \<equiv> CHR 0x0A"

abbreviation CR :: char where "CR \<equiv> CHR 0x0D"

text \<open>
  Text-mode reading with the default \<open>newline=None\<close>: the line ends CR LF and CR are
  translated to LF.
\<close>

fun universal_newlines :: "string \<Rightarrow> string" where
  "universal_newlines [] = []"
| "universal_newlines [c] = [if c = CR then LF else c]"
| "universal_newlines (c # c' # cs) =
     (if c = CR \<and> c' = LF then LF # universal_newlines cs
      else if c = CR then LF # universal_newlines (c' # cs)
      else c # universal_newlines (c' # cs))"

text \<open>Splitting at every occurrence of a separator; the result is never empty.\<close>

fun split_on :: "'a \<Rightarrow> 'a list \<Rightarrow> 'a list list" where
  "split_on d [] = [[]]"
| "split_on d (c # cs) =
     (if c = d then [] # split_on d cs
      else (case split_on d cs of [] \<Rightarrow> [[c]] | f # fs \<Rightarrow> (c # f) # fs))"

text \<open>
  Iterating over the file yields its lines; the text after the last LF is a line only if
  it is not empty. The lines are given here without their terminating LF, which the csv
  reader drops.
\<close>

definition file_lines :: "string \<Rightarrow> string list" where
  "file_lines s = (let ls = split_on LF s in if last ls = [] then butlast ls else ls)"

text \<open>
  One row of \<open>csv.reader(fp, delimiter=d, quoting=csv.QUOTE_NONE)\<close>: an empty line is the
  row without fields, any other line is split at the delimiter, quotes being ordinary
  characters. A field of more than 131072 characters raises \<open>csv.Error\<close>.
\<close>

definition field_size_limit :: nat where
  "field_size_limit = 131072"

definition csv_fields :: "char \<Rightarrow> string \<Rightarrow> error + string list" where
  "csv_fields d line =
     (let fields = (if line = [] then [] else split_on d line)
      in if list_ex (\<lambda>f. field_size_limit < length f) fields then Inl CsvError
         else Inr fields)"

text \<open>
  The rows that the reader yields for a file. The delimiter must be a string of one
  character, or \<open>csv.reader\<close> raises TypeError.
\<close>

definition csv_reader :: "string \<Rightarrow> string \<Rightarrow> error + string list list" where
  "csv_reader content delimiter =
     (case delimiter of
        [d] \<Rightarrow> mapM_err (csv_fields d) (file_lines (universal_newlines content))
      | _ \<Rightarrow> Inl TypeError)"

text \<open>\<open>str.isspace\<close> on the code points below 256, and \<open>str.strip()\<close>.\<close>

definition is_space :: "char \<Rightarrow> bool" where
  "is_space c =
     (let n = (of_char c :: nat)
      in (9 \<le> n \<and> n \<le> 13) \<or> (28 \<le> n \<and> n \<le> 32) \<or> n = 133 \<or> n = 160)"

definition strip :: "string \<Rightarrow> string" where
  "strip s = rev (dropWhile is_space (rev (dropWhile is_space s)))"

definition is_empty_line :: "string list \<Rightarrow> bool" where
  "is_empty_line line_pack = list_all (\<lambda>field. strip field = []) line_pack"

text \<open>\<open>itertools.groupby\<close>: the maximal runs of consecutive elements with equal keys.\<close>

function groupby :: "('a \<Rightarrow> bool) \<Rightarrow> 'a list \<Rightarrow> (bool \<times> 'a list) list" where
  "groupby key [] = []"
| "groupby key (x # xs) =
     (key x, x # takeWhile (\<lambda>y. key y = key x) xs)
       # groupby key (dropWhile (\<lambda>y. key y = key x) xs)"
  by pat_completeness auto
termination
  by (relation "measure (\<lambda>(key, xs). length xs)") (auto simp: length_dropWhile_le less_Suc_eq_le)

text \<open>\<open>zip(*rows)\<close>: the columns of the rows, as many as the shortest row has fields.\<close>

definition zip_star :: "'a list list \<Rightarrow> 'a list list" where
  "zip_star rows =
     (if rows = [] then []
      else map (\<lambda>k. map (\<lambda>r. r ! k) rows) [0..<Min (set (map length rows))])"

text \<open>The packs of the groups that are not runs of empty lines.\<close>

definition blocks :: "string list list \<Rightarrow> string list list list" where
  "blocks reader =
     map snd (filter (\<lambda>(is_empty, pack). \<not> is_empty) (groupby is_empty_line reader))"

text \<open>
  The columns dict and the dataset are association lists in key order.
\<close>

definition read_conll ::
  "string \<Rightarrow> (string \<times> int) list \<Rightarrow> string \<Rightarrow> error + (string \<times> string list list) list" where
  "read_conll content columns delimiter =
     (case csv_reader content delimiter of
        Inl e \<Rightarrow> Inl e
      | Inr reader \<Rightarrow>
          (let data = map zip_star (blocks reader);
               data = zip_star data
           in mapM_err
                (\<lambda>(colname, idx).
                   case py_index data idx of Inl e \<Rightarrow> Inl e | Inr col \<Rightarrow> Inr (colname, col))
                columns))"

text \<open>\<open>delimiter.join(row)\<close>.\<close>

fun join :: "string \<Rightarrow> string list \<Rightarrow> string" where
  "join d [] = []"
| "join d [x] = x"
| "join d (x # y # ys) = x @ d @ join d (y # ys)"

text \<open>\<open>data[col][sample_i][token_i]\<close>.\<close>

definition token_at ::
  "(string \<times> string list list) list \<Rightarrow> nat \<Rightarrow> nat \<Rightarrow> string \<Rightarrow> error + string" where
  "token_at data sample_i token_i col =
     (case map_of data col of
        None \<Rightarrow> Inl KeyError
      | Some samples \<Rightarrow>
          if sample_i < length samples \<and> token_i < length (samples ! sample_i)
          then Inr (samples ! sample_i ! token_i)
          else Inl IndexError)"

definition write_row ::
  "(string \<times> string list list) list \<Rightarrow> string list \<Rightarrow> string \<Rightarrow> nat \<Rightarrow> nat \<Rightarrow> error + string" where
  "write_row data colnames delimiter sample_i token_i =
     (case mapM_err (token_at data sample_i token_i) colnames of
        Inl e \<Rightarrow> Inl e
      | Inr row \<Rightarrow> Inr (join delimiter row @ [LF]))"

definition write_sample ::
  "(string \<times> string list list) list \<Rightarrow> string list \<Rightarrow> string \<Rightarrow> string list list \<Rightarrow> nat
     \<Rightarrow> error + string" where
  "write_sample data colnames delimiter first_col sample_i =
     (case mapM_err (write_row data colnames delimiter sample_i)
             [0..<length (first_col ! sample_i)] of
        Inl e \<Rightarrow> Inl e
      | Inr ls \<Rightarrow> Inr (concat ls @ [LF]))"

text \<open>\<open>write_conll\<close> returns the text that it writes to the file.\<close>

definition write_conll ::
  "(string \<times> string list list) list \<Rightarrow> string list option \<Rightarrow> string \<Rightarrow> error + string" where
  "write_conll data colnames delimiter =
     (let colnames = (case colnames of None \<Rightarrow> map fst data | Some cs \<Rightarrow> cs)
      in case colnames of
           [] \<Rightarrow> Inl IndexError
         | any_key # _ \<Rightarrow>
             (case map_of data any_key of
                None \<Rightarrow> Inl KeyError
              | Some first_col \<Rightarrow>
                  (case mapM_err (write_sample data colnames delimiter first_col)
                          [0..<length first_col] of
                     Inl e \<Rightarrow> Inl e
                   | Inr chunks \<Rightarrow> Inr (concat chunks))))"

text \<open>
  The smallest number of fields among the rows of all blocks, and 0 when there is no
  block: the number of columns that \<open>read_conll\<close> can index.
\<close>

definition min_fields :: "string list list list \<Rightarrow> nat" where
  "min_fields bs = (if bs = [] then 0 else Min (set (map length (concat bs))))"

text \<open>
  The rows of sample \<open>i\<close> of a list of columns: row \<open>j\<close> holds, for each column, token
  \<open>j\<close> of the sample.
\<close>

definition sample_rows :: "string list list list \<Rightarrow> nat \<Rightarrow> string list list" where
  "sample_rows cols i = map (\<lambda>j. map (\<lambda>c. c ! i ! j) cols) [0..<length (hd cols ! i)]"

text \<open>
  The datasets that survive writing and reading back with the delimiter \<open>d\<close>: at least
  one column, with distinct names, and at least one sample; every column has the same
  number of samples and, at each sample index, the same positive number of tokens; no
  token contains the delimiter, LF or CR or is longer than the field size limit; every
  row has a token that is not blank; the delimiter is neither LF nor CR.
\<close>

definition writable :: "char \<Rightarrow> (string \<times> string list list) list \<Rightarrow> bool" where
  "writable d data \<longleftrightarrow>
     data \<noteq> [] \<and> distinct (map fst data) \<and> d \<noteq> LF \<and> d \<noteq> CR \<and>
     (let cols = map snd data; first = hd cols
      in first \<noteq> [] \<and>
         (\<forall>col\<in>set cols.
            length col = length first \<and>
            (\<forall>i < length first.
               length (col ! i) = length (first ! i) \<and>
               (\<forall>tok\<in>set (col ! i).
                  d \<notin> set tok \<and> LF \<notin> set tok \<and> CR \<notin> set tok
                  \<and> length tok \<le> field_size_limit))) \<and>
         (\<forall>i < length first.
            first ! i \<noteq> [] \<and> (\<forall>row\<in>set (sample_rows cols i). \<not> is_empty_line row)))"

text \<open>
  A row that the reader gives back as it was written: it has a field, no field contains
  the delimiter or a line end or exceeds the field size limit, and it is not an empty
  line.
\<close>

definition good_row :: "char \<Rightarrow> string list \<Rightarrow> bool" where
  "good_row d row \<longleftrightarrow>
     row \<noteq> [] \<and> \<not> is_empty_line row \<and>
     (\<forall>tok\<in>set row.
        d \<notin> set tok \<and> LF \<notin> set tok \<and> CR \<notin> set tok \<and> length tok \<le> field_size_limit)"

text \<open>The column spec that names the columns of a dataset in their order.\<close>

definition columns_of :: "(string \<times> string list list) list \<Rightarrow> (string \<times> int) list" where
  "columns_of data = zip (map fst data) (map int [0..<length data])"

section \<open>Properties of the accumulator\<close>

lemma fold_loss_step_fields:
  "losses (foldl (\<lambda>s b. loss_step s (b_loss b) (b_ner b) (b_dep b) (b_size b)) s0 bs)
     = losses s0 @ map b_loss bs
   \<and> ner_losses (foldl (\<lambda>s b. loss_step s (b_loss b) (b_ner b) (b_dep b) (b_size b)) s0 bs)
     = ner_losses s0 @ map b_ner bs
   \<and> dep_losses (foldl (\<lambda>s b. loss_step s (b_loss b) (b_ner b) (b_dep b) (b_size b)) s0 bs)
     = dep_losses s0 @ map b_dep bs
   \<and> sizes (foldl (\<lambda>s b. loss_step s (b_loss b) (b_ner b) (b_dep b) (b_size b)) s0 bs)
     = sizes s0 @ map b_size bs"
  by (induction bs arbitrary: s0) (simp_all add: loss_step_def)

lemma record_all_fields:
  "losses (record_all bs) = map b_loss bs"
  "ner_losses (record_all bs) = map b_ner bs"
  "dep_losses (record_all bs) = map b_dep bs"
  "sizes (record_all bs) = map b_size bs"
  using fold_loss_step_fields [of EpochStats_init bs]
  by (simp_all add: record_all_def EpochStats_init_def)

lemma repeat_by_size_map:
  "repeat_by_size (map sel bs) (map b_size bs) = repeated sel bs"
  by (induction bs) (simp_all add: repeat_by_size_def repeated_def)

lemma np_min_Min: "xs \<noteq> [] \<Longrightarrow> np_min xs = Inr (Min (set xs))"
  by (cases xs) (simp_all add: np_min_def Min.set_eq_fold [symmetric])

lemma np_max_Max: "xs \<noteq> [] \<Longrightarrow> np_max xs = Inr (Max (set xs))"
  by (cases xs) (simp_all add: np_max_def Max.set_eq_fold [symmetric])

lemma sum_list_repeated:
  "(\<forall>b\<in>set bs. 0 \<le> b_size b) \<Longrightarrow>
     sum_list (repeated sel bs) = (\<Sum>b\<leftarrow>bs. sel b * real_of_int (b_size b))"
  by (induction bs) (simp_all add: repeated_def sum_list_replicate)

lemma length_repeated:
  "(\<forall>b\<in>set bs. 0 \<le> b_size b) \<Longrightarrow>
     real (length (repeated sel bs)) = real_of_int (\<Sum>b\<leftarrow>bs. b_size b)"
  by (induction bs) (simp_all add: repeated_def)

lemma np_mean_repeated:
  assumes "\<forall>b\<in>set bs. 0 \<le> b_size b" and "0 < (\<Sum>b\<leftarrow>bs. b_size b)"
  shows "np_mean (repeated sel bs) = Val (weighted_mean sel bs)"
proof -
  have len: "real (length (repeated sel bs)) = real_of_int (\<Sum>b\<leftarrow>bs. b_size b)"
    using assms(1) by (rule length_repeated)
  with assms(2) have "repeated sel bs \<noteq> []" by auto
  then show ?thesis
    using len sum_list_repeated [OF assms(1), of sel]
    by (simp add: np_mean_def weighted_mean_def)
qed

lemma loss_of_history:
  assumes "bs \<noteq> []"
  shows "loss (record_all bs) k =
           Inr (np_mean (repeated (selected k) bs),
                Min (set (map (selected k) bs)), Max (set (map (selected k) bs)))"
  using assms
  by (simp add: loss_def selected_def record_all_fields repeat_by_size_map
      np_min_Min np_max_Max Let_def)

text \<open>
  C2, as amended. With at least one recorded batch, \<open>loss\<close> returns (weighted mean,
  min, max) over the recorded NER loss values for the kind \<open>ner\<close>, over the recorded
  dependency loss values for the kind \<open>dep\<close>, and over the combined loss values for
  every other kind, the empty string among them.
\<close>

theorem loss_kind_selects:
  assumes "bs \<noteq> []"
  shows "loss (record_all bs) ''ner'' =
           Inr (np_mean (repeated b_ner bs), Min (set (map b_ner bs)), Max (set (map b_ner bs)))
       \<and> loss (record_all bs) ''dep'' =
           Inr (np_mean (repeated b_dep bs), Min (set (map b_dep bs)), Max (set (map b_dep bs)))
       \<and> (k \<noteq> ''ner'' \<and> k \<noteq> ''dep'' \<longrightarrow>
            loss (record_all bs) k =
              Inr (np_mean (repeated b_loss bs),
                   Min (set (map b_loss bs)), Max (set (map b_loss bs))))"
  using loss_of_history [OF assms, of "''ner''"] loss_of_history [OF assms, of "''dep''"]
    loss_of_history [OF assms, of k]
  by (simp add: selected_def)

theorem loss_kind_selects_witness:
  "loss (record_all [\<lparr>b_loss = 1, b_ner = 2, b_dep = 3, b_size = 1\<rparr>]) ''ner''
     = Inr (Val 2, 2, 2)
   \<and> loss (record_all [\<lparr>b_loss = 1, b_ner = 2, b_dep = 3, b_size = 1\<rparr>]) ''dep''
     = Inr (Val 3, 3, 3)
   \<and> loss (record_all [\<lparr>b_loss = 1, b_ner = 2, b_dep = 3, b_size = 1\<rparr>]) ''''
     = Inr (Val 1, 1, 1)"
  using loss_kind_selects [of "[\<lparr>b_loss = 1, b_ner = 2, b_dep = 3, b_size = 1\<rparr>]" "''''"]
  by (simp add: repeated_def np_mean_def)

text \<open>
  C2, as stated, fails: the kinds \<open>a\<close> and \<open>b\<close> are not selectors of the code, so
  both fall through to the combined loss values.
\<close>

theorem loss_kind_a_b_counterexample:
  "loss (record_all [\<lparr>b_loss = 1, b_ner = 2, b_dep = 3, b_size = 1\<rparr>]) ''a''
     = Inr (Val 1, 1, 1)
   \<and> loss (record_all [\<lparr>b_loss = 1, b_ner = 2, b_dep = 3, b_size = 1\<rparr>]) ''a''
     \<noteq> Inr (Val 2, 2, 2)
   \<and> loss (record_all [\<lparr>b_loss = 1, b_ner = 2, b_dep = 3, b_size = 1\<rparr>]) ''b''
     = Inr (Val 1, 1, 1)
   \<and> loss (record_all [\<lparr>b_loss = 1, b_ner = 2, b_dep = 3, b_size = 1\<rparr>]) ''b''
     \<noteq> Inr (Val 3, 3, 3)"
  by (simp add: loss_def record_all_def loss_step_def EpochStats_init_def
      repeat_by_size_def np_mean_def np_min_def np_max_def)

text \<open>
  C4. For a non-empty recorded history, \<open>loss\<close> returns the mean of the multiset in
  which each batch's loss value occurs as often as the batch is large, and the minimum
  and the maximum of the per-batch loss values themselves. When no recorded size is
  negative and their total is positive, that mean is the sum of loss times size divided
  by the sum of the sizes. The witness is the history with sizes 2, 3 and combined
  losses 1.0, 2.0, where the result is (1.6, 1.0, 2.0).
\<close>

theorem loss_weighted_mean_min_max:
  assumes "bs \<noteq> []"
  shows "loss (record_all bs) k =
           Inr (np_mean (repeated (selected k) bs),
                Min (set (map (selected k) bs)), Max (set (map (selected k) bs)))
       \<and> ((\<forall>b\<in>set bs. 0 \<le> b_size b) \<and> 0 < (\<Sum>b\<leftarrow>bs. b_size b) \<longrightarrow>
            np_mean (repeated (selected k) bs) = Val (weighted_mean (selected k) bs))"
  using loss_of_history [OF assms, of k] np_mean_repeated [of bs "selected k"]
  by simp

theorem loss_weighted_mean_min_max_witness:
  "loss (record_all [\<lparr>b_loss = 1, b_ner = 5, b_dep = 7, b_size = 2\<rparr>,
                     \<lparr>b_loss = 2, b_ner = 5, b_dep = 7, b_size = 3\<rparr>]) ''''
     = Inr (Val (16 / 10), 1, 2)"
  using loss_weighted_mean_min_max
    [of "[\<lparr>b_loss = 1, b_ner = 5, b_dep = 7, b_size = 2\<rparr>,
          \<lparr>b_loss = 2, b_ner = 5, b_dep = 7, b_size = 3\<rparr>]" "''''"]
  by (simp add: selected_def weighted_mean_def)

text \<open>
  C5. With no recorded batch, \<open>loss\<close> raises: the mean of the empty sequence is
  \<open>nan\<close>, but the minimum that is computed next raises ValueError, so no value is
  returned, whatever the kind.
\<close>

theorem loss_empty_raises:
  "loss (record_all []) k = Inl ValueError \<and> loss EpochStats_init k = Inl ValueError"
  by (simp add: loss_def record_all_def EpochStats_init_def np_min_def)

section \<open>Properties of \<open>step\<close>\<close>

lemma mapM_err_total:
  "(\<forall>x\<in>set xs. f x = Inr (g x)) \<Longrightarrow> mapM_err f xs = Inr (map g xs)"
  by (induction xs) simp_all

lemma max_dim_nonempty:
  "v \<noteq> [] \<Longrightarrow> max_dim v = Inr (Max (set v), argmax v)"
  by (cases v) (simp_all add: max_dim_def argmax_def Max.set_eq_fold [symmetric] Let_def)

lemma argmax_is_argmax:
  assumes "v \<noteq> []"
  shows "is_argmax v (argmax v)"
proof -
  let ?P = "\<lambda>y. y \<noteq> Max (set v)"
  have "Max (set v) \<in> set v" using assms by (intro Max_in) simp_all
  then have "takeWhile ?P v \<noteq> v" by (auto simp: takeWhile_eq_all_conv)
  then have lt: "length (takeWhile ?P v) < length v"
    using length_takeWhile_le [of ?P v] by (metis le_neq_implies_less takeWhile_eq_take take_all_iff order_refl)
  from nth_length_takeWhile [OF lt] show ?thesis
    using lt by (simp add: is_argmax_def argmax_def)
qed

lemma zip_as_map_nth:
  "length xs = length ys \<Longrightarrow> zip xs ys = map (\<lambda>j. (xs ! j, ys ! j)) [0..<length ys]"
  by (rule nth_equalityI) simp_all

lemma masked_select_at_true:
  "length m = length row \<Longrightarrow> masked_select row m = Inr (at_true m (\<lambda>j. row ! j))"
  by (simp add: masked_select_def at_true_def zip_as_map_nth filter_map comp_def)

lemma step_samples_total:
  assumes "\<forall>i\<in>set idx. rows_fit P C target mask_t i"
  shows "step_samples self P C target mask_t idx =
           Inr (self\<lparr>preds := preds self @ map (\<lambda>i. L (at_true (mask_t ! i) (\<lambda>j. C ! i ! j))) idx,
                     golds := golds self @ map (\<lambda>i. L (at_true (mask_t ! i) (\<lambda>j. target ! i ! j))) idx,
                     probs := probs self @ map (\<lambda>i. at_true (mask_t ! i) (\<lambda>j. P ! i ! j)) idx\<rparr>)"
  using assms
proof (induction idx arbitrary: self)
  case Nil
  then show ?case by simp
next
  case (Cons i rest)
  from Cons.prems have fit: "rows_fit P C target mask_t i"
    and rest: "\<forall>i\<in>set rest. rows_fit P C target mask_t i" by simp_all
  from fit have sel:
    "tensor_row P i = Inr (P ! i)" "tensor_row C i = Inr (C ! i)"
    "tensor_row target i = Inr (target ! i)" "tensor_row mask_t i = Inr (mask_t ! i)"
    "masked_select (P ! i) (mask_t ! i) = Inr (at_true (mask_t ! i) (\<lambda>j. P ! i ! j))"
    "masked_select (C ! i) (mask_t ! i) = Inr (at_true (mask_t ! i) (\<lambda>j. C ! i ! j))"
    "masked_select (target ! i) (mask_t ! i) = Inr (at_true (mask_t ! i) (\<lambda>j. target ! i ! j))"
    by (simp_all add: rows_fit_def tensor_row_def masked_select_at_true)
  show ?case
    by (simp add: sel Cons.IH [OF rest])
qed

lemma at_true_cong:
  "(\<And>j. j < length m \<Longrightarrow> f j = g j) \<Longrightarrow> at_true m f = at_true m g"
  by (simp add: at_true_def)

lemma scores_max_total:
  assumes "\<forall>s\<in>set scores. \<forall>v\<in>set s. v \<noteq> []"
  shows "scores_max scores =
           Inr (map (map (\<lambda>v. Max (set v))) scores, map (map argmax) scores)"
proof -
  have "mapM_err (mapM_err max_dim) scores
          = Inr (map (map (\<lambda>v. (Max (set v), argmax v))) scores)"
    using assms by (intro mapM_err_total ballI) (simp add: max_dim_nonempty)
  then show ?thesis by (simp add: scores_max_def comp_def)
qed

text \<open>
  C3. On tensors of matching shapes, \<open>step\<close> first records the batch with the number
  of samples in \<open>scores\<close> as its size, and then appends, for each sample in order, one
  entry to each of the predictions, the golds and the confidences: at the positions where
  the mask is true, in token order, the arg-max class id, the gold class id and the
  arg-max score. The entries recorded by earlier calls stay in front, unchanged.
\<close>

theorem step_records:
  assumes "well_shaped scores target mask_t"
  shows "step self scores target mask_t l ner_loss dep_loss =
           Inr \<lparr>sizes = sizes self @ [int (length scores)],
                losses = losses self @ [l],
                ner_losses = ner_losses self @ [ner_loss],
                dep_losses = dep_losses self @ [dep_loss],
                probs = probs self @
                  map (\<lambda>i. at_true (mask_t ! i) (\<lambda>j. Max (set (scores ! i ! j))))
                    [0..<length scores],
                preds = preds self @
                  map (\<lambda>i. L (at_true (mask_t ! i) (\<lambda>j. argmax (scores ! i ! j))))
                    [0..<length scores],
                golds = golds self @
                  map (\<lambda>i. L (at_true (mask_t ! i) (\<lambda>j. target ! i ! j)))
                    [0..<length scores]\<rparr>
       \<and> (\<forall>i < length scores. \<forall>j < length (scores ! i).
             is_argmax (scores ! i ! j) (argmax (scores ! i ! j)))"
proof -
  have ne: "\<forall>s\<in>set scores. \<forall>v\<in>set s. v \<noteq> []"
  proof (intro ballI)
    fix s v assume "s \<in> set scores" and v: "v \<in> set s"
    then obtain i where "i < length scores" and "s = scores ! i"
      by (auto simp: in_set_conv_nth)
    with assms v show "v \<noteq> []" by (simp add: well_shaped_def)
  qed
  have sm: "scores_max scores =
              Inr (map (map (\<lambda>v. Max (set v))) scores, map (map argmax) scores)"
    using ne by (rule scores_max_total)
  let ?P = "map (map (\<lambda>v. Max (set v))) scores" and ?C = "map (map argmax) scores"
  have idx: "\<forall>i\<in>set [0..<length scores]. rows_fit ?P ?C target mask_t i"
    using assms by (simp add: well_shaped_def rows_fit_def)
  have a1: "map (\<lambda>i. at_true (mask_t ! i) (\<lambda>j. ?P ! i ! j)) [0..<length scores]
          = map (\<lambda>i. at_true (mask_t ! i) (\<lambda>j. Max (set (scores ! i ! j)))) [0..<length scores]"
    using assms by (auto simp: well_shaped_def intro!: at_true_cong)
  have a2: "map (\<lambda>i. L (at_true (mask_t ! i) (\<lambda>j. ?C ! i ! j))) [0..<length scores]
          = map (\<lambda>i. L (at_true (mask_t ! i) (\<lambda>j. argmax (scores ! i ! j)))) [0..<length scores]"
    using assms by (auto simp: well_shaped_def intro!: at_true_cong)
  have am: "\<forall>i < length scores. \<forall>j < length (scores ! i).
             is_argmax (scores ! i ! j) (argmax (scores ! i ! j))"
    using ne by (intro allI impI argmax_is_argmax) (metis nth_mem)
  show ?thesis
    using am by (simp add: step_def sm step_samples_total [OF idx] a1 a2 loss_step_def)
qed

theorem step_records_witness:
  "step EpochStats_init [[[1, 9], [8, 2]], [[5, 5], [3, 4]]] [[1, 0], [0, 1]] [[1, 0], [1, 1]]
       1 2 3 =
     Inr \<lparr>sizes = [2], losses = [1], ner_losses = [2], dep_losses = [3],
          probs = [[9], [5, 4]], preds = [L [1], L [0, 1]], golds = [L [1], L [0, 1]]\<rparr>"
  using step_records [of "[[[1, 9], [8, 2]], [[5, 5], [3, 4]]]" "[[1, 0], [0, 1]]"
      "[[1, 0], [1, 1]]" EpochStats_init 1 2 3]
  by (simp add: well_shaped_def at_true_def argmax_def EpochStats_init_def All_less_Suc)

section \<open>Properties of label mapping\<close>

lemma lookup_known: "known_id m j \<Longrightarrow> lookup_label m j = Inr (label m j)"
  by (simp add: known_id_def label_def split: sum.splits)

lemma nested_on_flat:
  "mapM_err (map_nested_entry m) (map I js) = (if js = [] then Inr [] else Inl TypeError)"
  by (cases js) (simp_all add: map_nested_entry_def)

lemma flat_on_flat:
  "\<forall>j\<in>set js. known_id m j \<Longrightarrow>
     mapM_err (map_flat_entry m) (map I js) = Inr (map (\<lambda>j. S (label m j)) js)"
  by (induction js) (simp_all add: map_flat_entry_def lookup_known)

lemma nested_on_nested:
  assumes "\<forall>js\<in>set jss. \<forall>j\<in>set js. known_id m j"
  shows "mapM_err (map_nested_entry m) (map L jss) = Inr (map (\<lambda>js. SL (map (label m) js)) jss)"
proof -
  have "\<forall>js\<in>set jss. mapM_err (lookup_label m) js = Inr (map (label m) js)"
    using assms by (intro ballI mapM_err_total) (simp add: lookup_known)
  then show ?thesis
    by (induction jss) (simp_all add: map_nested_entry_def)
qed

text \<open>
  C9. Label mapping accepts both storage shapes. When the stored golds and predictions
  are flat sequences of known ids, the TypeError of the nested attempt is caught and each
  id is mapped to its label. When they are nested per-sample sequences of known ids, the
  id at position [sample][token] is mapped to its label at the same position.
\<close>

theorem map_to_labels_both_shapes:
  "(golds self = map I gs \<and> preds self = map I ps
      \<and> (\<forall>j\<in>set gs \<union> set ps. known_id m j) \<longrightarrow>
    map_to_labels self m
      = Inr (map (\<lambda>j. S (label m j)) gs, map (\<lambda>j. S (label m j)) ps))
   \<and> (golds self = map L gss \<and> preds self = map L pss
      \<and> (\<forall>js\<in>set gss \<union> set pss. \<forall>j\<in>set js. known_id m j) \<longrightarrow>
    map_to_labels self m
      = Inr (map (\<lambda>js. SL (map (label m) js)) gss, map (\<lambda>js. SL (map (label m) js)) pss))"
proof (intro conjI impI)
  assume a: "golds self = map I gs \<and> preds self = map I ps
      \<and> (\<forall>j\<in>set gs \<union> set ps. known_id m j)"
  then have kg: "\<forall>j\<in>set gs. known_id m j" and kp: "\<forall>j\<in>set ps. known_id m j"
    by blast+
  have "mapM_err (map_flat_entry m) (golds self) = Inr (map (\<lambda>j. S (label m j)) gs)"
    and "mapM_err (map_flat_entry m) (preds self) = Inr (map (\<lambda>j. S (label m j)) ps)"
    using a flat_on_flat [OF kg] flat_on_flat [OF kp] by simp_all
  then have fl: "map_both (map_flat_entry m) self
      = Inr (map (\<lambda>j. S (label m j)) gs, map (\<lambda>j. S (label m j)) ps)"
    by (simp add: map_both_def)
  from a have "map_both (map_nested_entry m) self
      = (if gs = [] \<and> ps = [] then Inr ([], []) else Inl TypeError)"
    by (simp add: map_both_def nested_on_flat)
  with fl show "map_to_labels self m
      = Inr (map (\<lambda>j. S (label m j)) gs, map (\<lambda>j. S (label m j)) ps)"
    by (simp add: map_to_labels_def split: if_splits)
next
  assume a: "golds self = map L gss \<and> preds self = map L pss
      \<and> (\<forall>js\<in>set gss \<union> set pss. \<forall>j\<in>set js. known_id m j)"
  then have kg: "\<forall>js\<in>set gss. \<forall>j\<in>set js. known_id m j"
    and kp: "\<forall>js\<in>set pss. \<forall>j\<in>set js. known_id m j"
    by blast+
  have g: "mapM_err (map_nested_entry m) (golds self)
        = Inr (map (\<lambda>js. SL (map (label m) js)) gss)"
    and p: "mapM_err (map_nested_entry m) (preds self)
        = Inr (map (\<lambda>js. SL (map (label m) js)) pss)"
    using a nested_on_nested [OF kg] nested_on_nested [OF kp] by simp_all
  then have "map_both (map_nested_entry m) self
      = Inr (map (\<lambda>js. SL (map (label m) js)) gss, map (\<lambda>js. SL (map (label m) js)) pss)"
    by (simp add: map_both_def)
  then show "map_to_labels self m
      = Inr (map (\<lambda>js. SL (map (label m) js)) gss, map (\<lambda>js. SL (map (label m) js)) pss)"
    by (simp add: map_to_labels_def)
qed

theorem map_to_labels_both_shapes_witness:
  "map_to_labels (EpochStats_init\<lparr>golds := [I 0, I 2], preds := [I 1, I (-1)]\<rparr>)
       (LabelList [''O'', ''B-PER'', ''I-PER''])
     = Inr ([S ''O'', S ''I-PER''], [S ''B-PER'', S ''I-PER''])
   \<and> map_to_labels (EpochStats_init\<lparr>golds := [L [0, 2], L [1]], preds := [L [1, 1], L [0]]\<rparr>)
       (LabelDict [(0, ''O''), (1, ''B-PER''), (2, ''I-PER'')])
     = Inr ([SL [''O'', ''I-PER''], SL [''B-PER'']], [SL [''B-PER'', ''B-PER''], SL [''O'']])"
  using map_to_labels_both_shapes
      [of "EpochStats_init\<lparr>golds := [I 0, I 2], preds := [I 1, I (-1)]\<rparr>" "[0, 2]" "[1, -1]"
          "LabelList [''O'', ''B-PER'', ''I-PER'']" "[]" "[]"]
    map_to_labels_both_shapes
      [of "EpochStats_init\<lparr>golds := [L [0, 2], L [1]], preds := [L [1, 1], L [0]]\<rparr>" "[]" "[]"
          "LabelDict [(0, ''O''), (1, ''B-PER''), (2, ''I-PER'')]" "[[0, 2], [1]]" "[[1, 1], [0]]"]
  by (simp add: known_id_def label_def lookup_label_def py_index_def EpochStats_init_def)

section \<open>Properties of report rendering\<close>

lemma report_get_key:
  "c \<in> set (map fst report) \<Longrightarrow> report_get dflt report c = Inr (metrics_of report c)"
  by (auto simp: report_get_def metrics_of_def map_of_eq_None_iff split: option.splits)

lemma report_get_default:
  "report_get True report c = Inr (metrics_of report c)"
  by (simp add: report_get_def metrics_of_def split: option.splits)

lemma support_key_total:
  "c \<in> set (map fst report) \<Longrightarrow> has_support report c \<Longrightarrow>
     support_key dflt report c = Inr (support_of report c)"
  by (auto simp: support_key_def report_get_key has_support_def support_of_def)

lemma mset_sorted_reverse:
  "length ks = length cs \<Longrightarrow> mset (sorted_reverse ks cs) = mset cs"
proof -
  assume len: "length ks = length cs"
  have "mset (sorted_reverse ks cs) = image_mset snd (mset (zip ks cs))"
    by (simp add: sorted_reverse_def)
  also have "\<dots> = mset (map snd (zip ks cs))" by simp
  also have "\<dots> = mset cs" using len by simp
  finally show ?thesis .
qed

lemma sorted_reverse_descending:
  "sorted (rev (map f (sorted_reverse (map f cs) cs)))"
proof -
  let ?S = "sort_key fst (rev (zip (map f cs) cs))"
  have "\<forall>p\<in>set ?S. f (snd p) = fst p"
    by (auto simp: in_set_zip)
  then have "map (f \<circ> snd) ?S = map fst ?S" by simp
  then have "rev (map f (sorted_reverse (map f cs) cs)) = map fst ?S"
    by (simp add: sorted_reverse_def rev_map)
  then show ?thesis by (simp add: sorted_sort_key)
qed

lemma class_rows_of_classes:
  assumes "\<forall>c\<in>set cs. report_get dflt report c = Inr (metrics_of report c)"
    and "''macro avg'' \<notin> set cs"
  shows "mapM_err (class_rows dflt report) cs = Inr (map (\<lambda>c. [table_row report c]) cs)"
  using assms by (intro mapM_err_total) (auto simp: class_rows_def table_row_def)

lemma mapM_err_append:
  "mapM_err f xs = Inr ys \<Longrightarrow> mapM_err f zs = Inr ws \<Longrightarrow> mapM_err f (xs @ zs) = Inr (ys @ ws)"
  by (induction xs arbitrary: ys) (auto split: sum.splits)

text \<open>
  C10. With no explicit class list and \<open>sort_by_support=True\<close>, on a report whose
  classes all have a support and that is a defaultdict or contains both aggregate
  labels, the table consists of one row for each non-aggregate class, in descending
  order of support, then an empty row, the \<open>macro avg\<close> row and the \<open>micro avg\<close> row,
  whatever the supports of the two aggregates are.
\<close>

theorem printcr_sorted_by_support:
  assumes sup: "\<forall>c\<in>set (class_labels report). has_support report c"
    and agg: "dflt \<or> (''macro avg'' \<in> set (map fst report) \<and> ''micro avg'' \<in> set (map fst report))"
  shows "\<exists>cs. printcr dflt report None True =
              Inr (map (table_row report) cs
                   @ [[], table_row report ''macro avg'', table_row report ''micro avg''])
            \<and> mset cs = mset (class_labels report)
            \<and> sorted (rev (map (support_of report) cs))"
proof -
  let ?labs = "class_labels report"
  let ?cs = "sorted_reverse (map (support_of report) ?labs) ?labs"
  have keys: "\<forall>c\<in>set ?labs. c \<in> set (map fst report)"
    by (simp add: class_labels_def)
  have "mapM_err (support_key dflt report) ?labs = Inr (map (support_of report) ?labs)"
    using sup keys by (intro mapM_err_total ballI support_key_total) auto
  then have ch: "choose_classes dflt report None True = Inr ?cs"
    by (simp add: choose_classes_def class_labels_def Let_def)
  have ms: "mset ?cs = mset ?labs" by (simp add: mset_sorted_reverse)
  then have st: "set ?cs = set ?labs" by (rule mset_eq_setD)
  have nomacro: "''macro avg'' \<notin> set ?cs" and nomicro: "''micro avg'' \<notin> set ?cs"
    unfolding st by (simp_all add: class_labels_def)
  have "\<forall>c\<in>set ?cs. report_get dflt report c = Inr (metrics_of report c)"
    unfolding st using keys by (auto intro: report_get_key)
  then have r1: "mapM_err (class_rows dflt report) ?cs = Inr (map (\<lambda>c. [table_row report c]) ?cs)"
    using nomacro by (rule class_rows_of_classes)
  have ga: "report_get dflt report ''macro avg'' = Inr (metrics_of report ''macro avg'')"
    and gi: "report_get dflt report ''micro avg'' = Inr (metrics_of report ''micro avg'')"
    using agg report_get_default [of report] report_get_key [of _ report dflt] by auto
  have r2: "mapM_err (class_rows dflt report) [''macro avg'', ''micro avg'']
              = Inr [[[], table_row report ''macro avg''], [table_row report ''micro avg'']]"
    by (simp add: class_rows_def ga gi table_row_def)
  have "mapM_err (class_rows dflt report) (?cs @ [''macro avg'', ''micro avg''])
          = Inr (map (\<lambda>c. [table_row report c]) ?cs
                 @ [[[], table_row report ''macro avg''], [table_row report ''micro avg'']])"
    using r1 r2 by (rule mapM_err_append)
  then have "printcr dflt report None True =
               Inr (map (table_row report) ?cs
                    @ [[], table_row report ''macro avg'', table_row report ''micro avg''])"
    using nomacro nomicro by (simp add: printcr_def ch concat_map_singleton)
  moreover have "sorted (rev (map (support_of report) ?cs))"
    by (rule sorted_reverse_descending)
  ultimately show ?thesis using ms by blast
qed

theorem printcr_sorted_by_support_witness:
  "printcr True
      [(''LOC'', [(''precision'', 1 / 2), (''recall'', 1), (''f1-score'', 2 / 3), (''support'', 3)]),
       (''macro avg'', [(''precision'', 1 / 2), (''support'', 10)]),
       (''PER'', [(''precision'', 1), (''recall'', 1), (''f1-score'', 1), (''support'', 7)])]
      None True
     = Inr [[Str ''PER'', Num 100, Num 100, Num 100, Num 7],
            [Str ''LOC'', Num 50, Num 100, Num (200 / 3), Num 3],
            [],
            [Str ''macro avg'', Num 50, Num 10],
            [Str ''micro avg'']]"
  using printcr_sorted_by_support [of
      "[(''LOC'', [(''precision'', 1 / 2), (''recall'', 1), (''f1-score'', 2 / 3), (''support'', 3)]),
        (''macro avg'', [(''precision'', 1 / 2), (''support'', 10)]),
        (''PER'', [(''precision'', 1), (''recall'', 1), (''f1-score'', 1), (''support'', 7)])]" True]
  by (simp add: printcr_def choose_classes_def support_key_def report_get_def sorted_reverse_def
      class_rows_def row_cells_def headers_def)

section \<open>Properties of the CoNLL reader and writer\<close>

lemma split_on_not_Nil: "split_on d s \<noteq> []"
  by (induction s) (auto split: list.splits)

lemma split_on_no_sep: "d \<notin> set s \<Longrightarrow> split_on d s = [s]"
  by (induction s) auto

lemma split_on_append_sep:
  "d \<notin> set a \<Longrightarrow> split_on d (a @ d # b) = a # split_on d b"
  by (induction a) (auto split: list.splits simp: split_on_not_Nil)

lemma split_on_chars: "\<Union> (set ` set (split_on d s)) = set s - {d}"
proof (induction s)
  case Nil
  then show ?case by simp
next
  case (Cons c s)
  obtain f fs where sp: "split_on d s = f # fs"
    using split_on_not_Nil [of d s] by (cases "split_on d s") auto
  with Cons show ?case by (cases "c = d") auto
qed

lemma split_on_join:
  "fs \<noteq> [] \<Longrightarrow> \<forall>f\<in>set fs. d \<notin> set f \<Longrightarrow> split_on d (join [d] fs) = fs"
proof (induction fs)
  case Nil
  then show ?case by simp
next
  case (Cons f fs)
  show ?case
  proof (cases fs)
    case Nil
    with Cons.prems show ?thesis by (simp add: split_on_no_sep)
  next
    case (Cons g gs)
    with Cons.prems Cons.IH have "split_on d (join [d] fs) = fs" by simp
    with Cons Cons.prems show ?thesis
      using split_on_append_sep [of d f "join [d] (g # gs)"] by simp
  qed
qed

lemma split_on_lines:
  "\<forall>l\<in>set ls. LF \<notin> set l \<Longrightarrow> split_on LF (concat (map (\<lambda>l. l @ [LF]) ls)) = ls @ [[]]"
  by (induction ls) (simp_all add: split_on_append_sep)

lemma file_lines_of_lines:
  "\<forall>l\<in>set ls. LF \<notin> set l \<Longrightarrow> file_lines (concat (map (\<lambda>l. l @ [LF]) ls)) = ls"
  by (simp add: file_lines_def split_on_lines)

lemma universal_newlines_no_CR: "CR \<notin> set s \<Longrightarrow> universal_newlines s = s"
  by (induction s rule: universal_newlines.induct) auto

lemma strip_empty_iff: "strip s = [] \<longleftrightarrow> (\<forall>c\<in>set s. is_space c)"
proof
  assume "strip s = []"
  then have all: "\<forall>c\<in>set (dropWhile is_space s). is_space c"
    by (simp add: strip_def)
  have "dropWhile is_space s = []"
  proof (rule ccontr)
    assume ne: "dropWhile is_space s \<noteq> []"
    then have "\<not> is_space (hd (dropWhile is_space s))" by (rule hd_dropWhile)
    moreover have "hd (dropWhile is_space s) \<in> set (dropWhile is_space s)" using ne by simp
    ultimately show False using all by blast
  qed
  then show "\<forall>c\<in>set s. is_space c" by simp
next
  assume "\<forall>c\<in>set s. is_space c"
  then show "strip s = []" by (auto simp: strip_def dest: set_dropWhileD)
qed

lemma is_empty_line_iff:
  "is_empty_line fs \<longleftrightarrow> (\<forall>f\<in>set fs. \<forall>c\<in>set f. is_space c)"
  by (simp add: is_empty_line_def list_all_iff strip_empty_iff)

lemma groupby_run:
  assumes "\<forall>y\<in>set ys. key y = key x" and "zs = [] \<or> key (hd zs) \<noteq> key x"
  shows "groupby key (x # ys @ zs) = (key x, x # ys) # groupby key zs"
proof -
  have "takeWhile (\<lambda>y. key y = key x) (ys @ zs) = ys"
    using assms by (cases zs) simp_all
  moreover have "dropWhile (\<lambda>y. key y = key x) (ys @ zs) = zs"
    using assms by (cases zs) simp_all
  ultimately show ?thesis by simp
qed

lemma blocks_two_runs:
  assumes "rows1 \<noteq> []" and "rows2 \<noteq> []"
    and ne: "\<forall>r\<in>set rows1 \<union> set rows2. \<not> is_empty_line r"
    and b: "is_empty_line b"
  shows "blocks (rows1 @ [b] @ rows2) = [rows1, rows2]"
proof -
  obtain x ys where r1: "rows1 = x # ys" using assms(1) by (cases rows1) auto
  obtain x2 ys2 where r2: "rows2 = x2 # ys2" using assms(2) by (cases rows2) auto
  have 1: "groupby is_empty_line (x # ys @ (b # rows2))
             = (is_empty_line x, x # ys) # groupby is_empty_line (b # rows2)"
    using ne b r1 by (intro groupby_run) auto
  have 2: "groupby is_empty_line (b # [] @ rows2)
             = (is_empty_line b, b # []) # groupby is_empty_line rows2"
    using ne b r2 by (intro groupby_run) auto
  have 3: "groupby is_empty_line (x2 # ys2 @ [])
             = (is_empty_line x2, x2 # ys2) # groupby is_empty_line []"
    using ne r2 by (intro groupby_run) auto
  show ?thesis
    using 1 2 3 ne b r1 r2 by (simp add: blocks_def)
qed

lemma csv_fields_empty_iff:
  assumes "csv_fields d line = Inr fs"
  shows "is_empty_line fs \<longleftrightarrow> (\<forall>c\<in>set line. c = d \<or> is_space c)"
proof (cases "line = []")
  case True
  with assms show ?thesis by (simp add: csv_fields_def is_empty_line_def split: if_splits)
next
  case False
  with assms have fs: "fs = split_on d line"
    by (simp add: csv_fields_def Let_def split: if_splits)
  have "is_empty_line fs \<longleftrightarrow> (\<forall>c\<in>\<Union> (set ` set fs). is_space c)"
    by (auto simp: is_empty_line_iff)
  also have "\<dots> \<longleftrightarrow> (\<forall>c\<in>set line - {d}. is_space c)"
    by (simp only: fs split_on_chars)
  also have "\<dots> \<longleftrightarrow> (\<forall>c\<in>set line. c = d \<or> is_space c)" by auto
  finally show ?thesis .
qed

lemmas conll_eval =
  read_conll_def csv_reader_def csv_fields_def field_size_limit_def file_lines_def
  blocks_def is_empty_line_def strip_def is_space_def zip_star_def py_index_def Let_def

text \<open>
  C7. A row is an empty line exactly when each of its fields is empty after \<open>strip\<close>;
  for the row that the reader makes of a line this means that the line consists of
  delimiters and whitespace only. Such a row between two runs of other rows ends the
  sample: the runs are two blocks.
\<close>

theorem empty_line_ends_sample:
  "(is_empty_line fs \<longleftrightarrow> (\<forall>f\<in>set fs. strip f = []))
   \<and> (csv_fields d line = Inr fs \<longrightarrow>
        (is_empty_line fs \<longleftrightarrow> (\<forall>c\<in>set line. c = d \<or> is_space c)))
   \<and> (rows1 \<noteq> [] \<and> rows2 \<noteq> [] \<and> (\<forall>r\<in>set rows1 \<union> set rows2. \<not> is_empty_line r)
          \<and> is_empty_line b \<longrightarrow>
        blocks (rows1 @ [b] @ rows2) = [rows1, rows2])"
  using csv_fields_empty_iff [of d line fs] blocks_two_runs [of rows1 rows2 b]
  by (simp add: is_empty_line_def list_all_iff)

theorem empty_line_ends_sample_witness:
  "is_empty_line ['' '', [CHR 0x09]]
   \<and> csv_fields (CHR ''|'') ('' |'' @ [CHR 0x09]) = Inr ['' '', [CHR 0x09]]
   \<and> blocks ([[''a'', ''X'']] @ [['' '', [CHR 0x09]]] @ [[''b'', ''Y'']])
       = [[[''a'', ''X'']], [[''b'', ''Y'']]]
   \<and> read_conll (''a|X'' @ [LF] @ '' |'' @ [CHR 0x09, LF] @ ''b|Y'' @ [LF])
         [(''tok'', 0), (''tag'', 1)] ''|''
       = Inr [(''tok'', [[''a''], [''b'']]), (''tag'', [[''X''], [''Y'']])]"
proof -
  have f: "csv_fields (CHR ''|'') ('' |'' @ [CHR 0x09]) = Inr ['' '', [CHR 0x09]]"
    by (simp add: csv_fields_def field_size_limit_def)
  have s: "\<forall>c\<in>set ('' |'' @ [CHR 0x09]). c = CHR ''|'' \<or> is_space c"
    by (simp add: is_space_def)
  have n: "\<forall>r\<in>set [[''a'', ''X'']] \<union> set [[''b'', ''Y'']]. \<not> is_empty_line r"
    by (simp add: is_empty_line_def strip_def is_space_def)
  have r: "read_conll (''a|X'' @ [LF] @ '' |'' @ [CHR 0x09, LF] @ ''b|Y'' @ [LF])
         [(''tok'', 0), (''tag'', 1)] ''|''
       = Inr [(''tok'', [[''a''], [''b'']]), (''tag'', [[''X''], [''Y'']])]"
    by (simp add: conll_eval)
  from empty_line_ends_sample [of "['' '', [CHR 0x09]]" "CHR ''|''" "'' |'' @ [CHR 0x09]"
      "[[''a'', ''X'']]" "[[''b'', ''Y'']]" "['' '', [CHR 0x09]]"]
  have "is_empty_line ['' '', [CHR 0x09]]"
    and "blocks ([[''a'', ''X'']] @ [['' '', [CHR 0x09]]] @ [[''b'', ''Y'']])
       = [[[''a'', ''X'']], [[''b'', ''Y'']]]"
    using f s n by (simp_all add: strip_def is_space_def)
  with f r show ?thesis by simp
qed

section \<open>Errors and sample counts of the CoNLL reader\<close>

lemma length_zip_star:
  "rows \<noteq> [] \<Longrightarrow> length (zip_star rows) = Min (set (map length rows))"
  by (simp add: zip_star_def)

lemma nth_zip_star:
  "k < length (zip_star rows) \<Longrightarrow> zip_star rows ! k = map (\<lambda>r. r ! k) rows"
  by (cases "rows = []") (simp_all add: zip_star_def)

lemma groupby_packs_nonempty: "\<forall>g\<in>set (groupby key xs). snd g \<noteq> []"
  by (induction key xs rule: groupby.induct) simp_all

lemma blocks_nonempty: "\<forall>b\<in>set (blocks reader). b \<noteq> []"
  using groupby_packs_nonempty [of is_empty_line reader] by (auto simp: blocks_def)

lemma length_columns:
  assumes ne: "\<forall>b\<in>set bs. b \<noteq> []"
  shows "length (zip_star (map zip_star bs)) = min_fields bs"
proof (cases "bs = []")
  case True
  then show ?thesis by (simp add: zip_star_def min_fields_def)
next
  case False
  let ?f = "\<lambda>b. Min (set (map length b))"
  let ?S = "set (map length (concat bs))"
  let ?M = "Min (?f ` set bs)"
  have len: "length (zip_star (map zip_star bs)) = ?M"
  proof -
    have "map length (map zip_star bs) = map ?f bs"
      using ne by (simp add: length_zip_star)
    then have "set (map length (map zip_star bs)) = ?f ` set bs"
      by (simp only: set_map)
    moreover have "length (zip_star (map zip_star bs)) = Min (set (map length (map zip_star bs)))"
      using False by (intro length_zip_star) simp
    ultimately show ?thesis by (simp only:)
  qed
  have "?M \<in> ?f ` set bs"
    using False by (intro Min_in) simp_all
  then obtain b0 where b0: "b0 \<in> set bs" and m0: "?M = ?f b0"
    by blast
  have "?f b0 \<in> set (map length b0)"
    using ne b0 by (intro Min_in) simp_all
  then have inS: "?M \<in> ?S" using b0 m0 by auto
  have low: "?M \<le> y" if "y \<in> ?S" for y
  proof -
    from that obtain b r where b: "b \<in> set bs" and r: "r \<in> set b" and y: "y = length r"
      by auto
    have "?M \<le> ?f b"
      using b by (intro Min_le) auto
    also have "\<dots> \<le> y" using r y by (intro Min_le) auto
    finally show ?thesis .
  qed
  have "Min ?S = ?M"
    using inS low by (intro Min_eqI) auto
  then show ?thesis
    using False len by (simp add: min_fields_def)
qed

lemma py_index_in_range:
  "- int (length xs) \<le> i \<Longrightarrow> i < int (length xs) \<Longrightarrow> \<exists>y. py_index xs i = Inr y"
  unfolding py_index_def by simp

lemma py_index_nonneg:
  "0 \<le> i \<Longrightarrow> nat i < length xs \<Longrightarrow> py_index xs i = Inr (xs ! nat i)"
  unfolding py_index_def by simp

lemma py_index_out_of_range:
  "\<not> (- int (length xs) \<le> i \<and> i < int (length xs)) \<Longrightarrow> py_index xs i = Inl IndexError"
  unfolding py_index_def by auto

lemma py_index_error: "py_index xs i = Inl e \<Longrightarrow> e = IndexError"
  unfolding py_index_def by (simp split: if_splits)

lemma mapM_err_some:
  "\<forall>x\<in>set xs. \<exists>y. f x = Inr y \<Longrightarrow> \<exists>ys. mapM_err f xs = Inr ys"
proof (induction xs)
  case Nil
  then show ?case by simp
next
  case (Cons x xs)
  then obtain y ys where "f x = Inr y" and "mapM_err f xs = Inr ys" by auto
  then show ?case by simp
qed

lemma mapM_err_fails:
  assumes "\<exists>x\<in>set xs. f x = Inl e" and "\<forall>x\<in>set xs. \<forall>e'. f x = Inl e' \<longrightarrow> e' = e"
  shows "mapM_err f xs = Inl e"
  using assms
proof (induction xs)
  case Nil
  then show ?case by simp
next
  case (Cons x xs)
  show ?case
  proof (cases "f x")
    case (Inl e')
    with Cons.prems show ?thesis by simp
  next
    case (Inr y)
    with Cons.prems have "\<exists>x\<in>set xs. f x = Inl e" by auto
    with Cons.IH Cons.prems have "mapM_err f xs = Inl e" by simp
    with Inr show ?thesis by simp
  qed
qed

lemma read_conll_unfold:
  assumes "csv_reader content delimiter = Inr reader"
  shows "read_conll content columns delimiter =
           mapM_err
             (\<lambda>(colname, idx).
                case py_index (zip_star (map zip_star (blocks reader))) idx of
                  Inl e \<Rightarrow> Inl e
                | Inr col \<Rightarrow> Inr (colname, col))
             columns"
  using assms by (simp add: read_conll_def)

text \<open>
  C6, as amended. When the reader yields its rows, \<open>read_conll\<close> raises IndexError if
  some requested column position lies outside the smallest field count among the rows of
  all blocks (counted from the end when negative), and returns a dataset otherwise,
  whether the rows of a block have equal field counts or not.
\<close>

theorem read_conll_index_error:
  assumes "csv_reader content delimiter = Inr reader"
  shows "((\<forall>(colname, idx)\<in>set columns.
             - int (min_fields (blocks reader)) \<le> idx \<and> idx < int (min_fields (blocks reader)))
          \<longrightarrow> (\<exists>dataset. read_conll content columns delimiter = Inr dataset))
       \<and> ((\<exists>(colname, idx)\<in>set columns.
             \<not> (- int (min_fields (blocks reader)) \<le> idx
                \<and> idx < int (min_fields (blocks reader))))
          \<longrightarrow> read_conll content columns delimiter = Inl IndexError)"
proof (intro conjI impI)
  let ?data = "zip_star (map zip_star (blocks reader))"
  let ?g = "\<lambda>(colname :: string, idx).
              case py_index ?data idx of Inl e \<Rightarrow> Inl e | Inr col \<Rightarrow> Inr (colname, col)"
  have len: "length ?data = min_fields (blocks reader)"
    using blocks_nonempty by (rule length_columns)
  {
    assume ok: "\<forall>(colname, idx)\<in>set columns.
             - int (min_fields (blocks reader)) \<le> idx \<and> idx < int (min_fields (blocks reader))"
    have "\<forall>x\<in>set columns. \<exists>y. ?g x = Inr y"
    proof
      fix x assume x: "x \<in> set columns"
      obtain c idx where cx: "x = (c, idx)" by (cases x)
      with ok x have "- int (length ?data) \<le> idx" and "idx < int (length ?data)"
        unfolding len by auto
      then obtain col where "py_index ?data idx = Inr col"
        using py_index_in_range by blast
      with cx show "\<exists>y. ?g x = Inr y" by simp
    qed
    then have "\<exists>ys. mapM_err ?g columns = Inr ys" by (rule mapM_err_some)
    then show "\<exists>dataset. read_conll content columns delimiter = Inr dataset"
      unfolding read_conll_unfold [OF assms] .
  }
  {
    assume bad: "\<exists>(colname, idx)\<in>set columns.
             \<not> (- int (min_fields (blocks reader)) \<le> idx
                \<and> idx < int (min_fields (blocks reader)))"
    then obtain c idx where cx: "(c, idx) \<in> set columns"
      and out: "\<not> (- int (length ?data) \<le> idx \<and> idx < int (length ?data))"
      unfolding len by auto
    from out have "py_index ?data idx = Inl IndexError" by (rule py_index_out_of_range)
    then have "?g (c, idx) = Inl IndexError" by simp
    with cx have 1: "\<exists>x\<in>set columns. ?g x = Inl IndexError" by blast
    have 2: "\<forall>x\<in>set columns. \<forall>e'. ?g x = Inl e' \<longrightarrow> e' = IndexError"
      by (auto split: sum.splits dest: py_index_error)
    from 1 2 have "mapM_err ?g columns = Inl IndexError" by (rule mapM_err_fails)
    then show "read_conll content columns delimiter = Inl IndexError"
      unfolding read_conll_unfold [OF assms] .
  }
qed

theorem read_conll_index_error_witness:
  "read_conll (''a|X'' @ [LF] @ ''b'' @ [LF]) [(''tok'', 0), (''tag'', 1)] ''|'' = Inl IndexError
   \<and> (\<exists>dataset. read_conll (''a|X'' @ [LF] @ ''b'' @ [LF]) [(''tok'', -1)] ''|'' = Inr dataset)"
proof -
  have r: "csv_reader (''a|X'' @ [LF] @ ''b'' @ [LF]) ''|'' = Inr [[''a'', ''X''], [''b'']]"
    by (simp add: conll_eval)
  have m: "min_fields (blocks [[''a'', ''X''], [''b'']]) = 1"
    by (simp add: min_fields_def conll_eval)
  show ?thesis
    using read_conll_index_error [OF r, of "[(''tok'', 0), (''tag'', 1)]"]
      read_conll_index_error [OF r, of "[(''tok'', -1)]"]
    by (simp add: m)
qed

text \<open>
  C6, as stated, fails: a block whose rows have two fields and one field is read without
  an error when only the first column is requested; the second field is dropped.
\<close>

theorem read_conll_ragged_counterexample:
  "csv_reader (''a|X'' @ [LF] @ ''b'' @ [LF]) ''|'' = Inr [[''a'', ''X''], [''b'']]
   \<and> read_conll (''a|X'' @ [LF] @ ''b'' @ [LF]) [(''tok'', 0)] ''|''
       = Inr [(''tok'', [[''a'', ''b'']])]"
  by (simp add: conll_eval)

lemma min_fields_le:
  "b \<in> set bs \<Longrightarrow> row \<in> set b \<Longrightarrow> min_fields bs \<le> length row"
  by (auto simp: min_fields_def intro!: Min_le)

lemma min_fields_greater:
  assumes "bs \<noteq> []" and "\<forall>b\<in>set bs. b \<noteq> []"
    and "\<forall>b\<in>set bs. \<forall>row\<in>set b. k < length row"
  shows "k < min_fields bs"
proof -
  have "concat bs \<noteq> []"
    using assms(1,2) by (cases bs) auto
  then have "Min (set (map length (concat bs))) \<in> set (map length (concat bs))"
    by (intro Min_in) simp_all
  then show ?thesis using assms(1,3) by (auto simp: min_fields_def)
qed

text \<open>
  C8, as amended. For a file with \<open>N \<ge> 1\<close> blocks whose rows all have a field at
  every requested column position, \<open>read_conll\<close> returns a dataset with the requested
  column names, in which every column has \<open>N\<close> samples and the sample at index
  \<open>i\<close> has, in every column, as many tokens as block \<open>i\<close> has rows.
\<close>

theorem read_conll_sample_counts:
  assumes rd: "csv_reader content delimiter = Inr reader"
    and n: "blocks reader \<noteq> []"
    and cover: "\<forall>(colname, idx)\<in>set columns.
                 0 \<le> idx \<and> (\<forall>pack\<in>set (blocks reader). \<forall>row\<in>set pack. nat idx < length row)"
  shows "\<exists>dataset. read_conll content columns delimiter = Inr dataset
           \<and> map fst dataset = map fst columns
           \<and> (\<forall>(colname, samples)\<in>set dataset.
                 length samples = length (blocks reader)
                 \<and> (\<forall>i < length (blocks reader).
                       length (samples ! i) = length (blocks reader ! i)))"
proof -
  let ?bs = "blocks reader"
  let ?data = "zip_star (map zip_star ?bs)"
  let ?g = "\<lambda>(colname :: string, idx).
              case py_index ?data idx of Inl e \<Rightarrow> Inl e | Inr col \<Rightarrow> Inr (colname, col)"
  let ?h = "\<lambda>(colname :: string, idx). (colname, ?data ! nat idx)"
  have ne: "\<forall>b\<in>set ?bs. b \<noteq> []" by (rule blocks_nonempty)
  have len: "length ?data = min_fields ?bs" using ne by (rule length_columns)
  have inr: "nat idx < length ?data" if "(c, idx) \<in> set columns" for c idx
    unfolding len using n ne cover that by (intro min_fields_greater) auto
  have "\<forall>x\<in>set columns. ?g x = Inr (?h x)"
  proof
    fix x assume x: "x \<in> set columns"
    obtain c idx where cx: "x = (c, idx)" by (cases x)
    with x cover have "0 \<le> idx" by auto
    moreover have "nat idx < length ?data" using inr x cx by simp
    ultimately have "py_index ?data idx = Inr (?data ! nat idx)" by (rule py_index_nonneg)
    with cx show "?g x = Inr (?h x)" by simp
  qed
  then have "mapM_err ?g columns = Inr (map ?h columns)" by (rule mapM_err_total)
  then have res: "read_conll content columns delimiter = Inr (map ?h columns)"
    unfolding read_conll_unfold [OF rd] .
  have names: "map fst (map ?h columns) = map fst columns"
    by (simp add: comp_def case_prod_unfold)
  have shape: "length samples = length ?bs
                 \<and> (\<forall>i < length ?bs. length (samples ! i) = length (?bs ! i))"
    if "(c, samples) \<in> set (map ?h columns)" for c samples
  proof -
    from that obtain idx where ci: "(c, idx) \<in> set columns" and sm: "samples = ?data ! nat idx"
      by auto
    have k: "nat idx < length ?data" using ci by (rule inr)
    then have col: "samples = map (\<lambda>r. r ! nat idx) (map zip_star ?bs)"
      unfolding sm by (rule nth_zip_star)
    have "length (samples ! i) = length (?bs ! i)" if i: "i < length ?bs" for i
    proof -
      have bi: "?bs ! i \<in> set ?bs" using i by simp
      have bne: "?bs ! i \<noteq> []" using ne bi by blast
      have "min_fields ?bs \<le> length (zip_star (?bs ! i))"
      proof -
        have "length (zip_star (?bs ! i)) = Min (set (map length (?bs ! i)))"
          using bne by (rule length_zip_star)
        moreover have "Min (set (map length (?bs ! i))) \<in> set (map length (?bs ! i))"
          using bne by (intro Min_in) simp_all
        ultimately show ?thesis using bi by (auto intro: min_fields_le)
      qed
      with k have "nat idx < length (zip_star (?bs ! i))" unfolding len by simp
      then have "zip_star (?bs ! i) ! nat idx = map (\<lambda>r. r ! nat idx) (?bs ! i)"
        by (rule nth_zip_star)
      with i show ?thesis by (simp add: col)
    qed
    then show ?thesis by (simp add: col)
  qed
  show ?thesis
    using res names shape by (intro exI [of _ "map ?h columns"]) blast
qed

theorem read_conll_sample_counts_witness:
  "read_conll (''a|X'' @ [LF] @ ''b|Y'' @ [LF, LF] @ ''c|Z'' @ [LF])
       [(''tok'', 0), (''tag'', 1)] ''|''
     = Inr [(''tok'', [[''a'', ''b''], [''c'']]), (''tag'', [[''X'', ''Y''], [''Z'']])]
   \<and> blocks [[''a'', ''X''], [''b'', ''Y''], [], [''c'', ''Z'']]
     = [[[''a'', ''X''], [''b'', ''Y'']], [[''c'', ''Z'']]]"
proof -
  have r: "csv_reader (''a|X'' @ [LF] @ ''b|Y'' @ [LF, LF] @ ''c|Z'' @ [LF]) ''|''
             = Inr [[''a'', ''X''], [''b'', ''Y''], [], [''c'', ''Z'']]"
    by (simp add: conll_eval)
  have b: "blocks [[''a'', ''X''], [''b'', ''Y''], [], [''c'', ''Z'']]
             = [[[''a'', ''X''], [''b'', ''Y'']], [[''c'', ''Z'']]]"
    by (simp add: conll_eval)
  have e: "read_conll (''a|X'' @ [LF] @ ''b|Y'' @ [LF, LF] @ ''c|Z'' @ [LF])
       [(''tok'', 0), (''tag'', 1)] ''|''
     = Inr [(''tok'', [[''a'', ''b''], [''c'']]), (''tag'', [[''X'', ''Y''], [''Z'']])]"
    by (simp add: conll_eval)
  show ?thesis
    using read_conll_sample_counts [OF r, of "[(''tok'', 0), (''tag'', 1)]"] b e
    by simp
qed

text \<open>
  C8, as stated, fails for \<open>N = 0\<close>: on a file without blocks, here the empty file,
  \<open>read_conll\<close> raises IndexError for a requested column instead of returning a column
  without samples.
\<close>

theorem read_conll_no_blocks_counterexample:
  "csv_reader [] ''|'' = Inr [] \<and> blocks [] = []
   \<and> read_conll [] [(''tok'', 0)] ''|'' = Inl IndexError"
  by (simp add: conll_eval)

section \<open>The round trip of the CoNLL writer and reader\<close>

lemma map_of_distinct_names:
  "distinct (map fst data) \<Longrightarrow> map (\<lambda>c. the (map_of data c)) (map fst data) = map snd data"
proof (induction data)
  case Nil
  then show ?case by simp
next
  case (Cons p data)
  then have "\<forall>c\<in>set (map fst data). map_of (p # data) c = map_of data c"
    by (cases p) auto
  then have "map (\<lambda>c. the (map_of (p # data) c)) (map fst data)
               = map (\<lambda>c. the (map_of data c)) (map fst data)"
    by simp
  with Cons show ?case by (cases p) simp
qed

lemma blocks_cons_run:
  assumes "r \<noteq> []" and "\<forall>row\<in>set r. \<not> is_empty_line row"
    and "rest = [] \<or> \<not> is_empty_line (hd rest)"
  shows "blocks (r @ [[]] @ rest) = r # blocks rest"
proof -
  obtain x ys where r: "r = x # ys" using assms(1) by (cases r) auto
  have e: "is_empty_line []" by (simp add: is_empty_line_def)
  have 1: "groupby is_empty_line (x # ys @ ([] # rest))
             = (is_empty_line x, x # ys) # groupby is_empty_line ([] # rest)"
    using assms(2) r e by (intro groupby_run) auto
  have 2: "groupby is_empty_line ([] # [] @ rest)
             = (is_empty_line [], [] # []) # groupby is_empty_line rest"
    using assms(3) e by (intro groupby_run) auto
  show ?thesis
    using 1 2 e assms(2) r by (simp add: blocks_def)
qed

lemma blocks_concat:
  assumes "\<forall>r\<in>set rs. r \<noteq> [] \<and> (\<forall>row\<in>set r. \<not> is_empty_line row)"
  shows "blocks (concat (map (\<lambda>r. r @ [[]]) rs)) = rs"
  using assms
proof (induction rs)
  case Nil
  then show ?case by (simp add: blocks_def)
next
  case (Cons r rs)
  let ?rest = "concat (map (\<lambda>r. r @ [[]]) rs)"
  have "?rest = [] \<or> \<not> is_empty_line (hd ?rest)"
  proof (cases rs)
    case Nil
    then show ?thesis by simp
  next
    case (Cons r' rs')
    with Cons.prems have "r' \<noteq> []" and "\<not> is_empty_line (hd r')"
      by (auto simp: hd_in_set)
    with Cons show ?thesis by (simp add: hd_append)
  qed
  with Cons.prems have "blocks (r @ [[]] @ ?rest) = r # blocks ?rest"
    by (intro blocks_cons_run) auto
  with Cons show ?case by simp
qed

lemma zip_star_rect:
  assumes "rows \<noteq> []" and "\<forall>r\<in>set rows. length r = K"
  shows "zip_star rows = map (\<lambda>k. map (\<lambda>r. r ! k) rows) [0..<K]"
proof -
  have "set (map length rows) = {K}" using assms by (cases rows) auto
  then have "Min (set (map length rows)) = K" by (simp only: Min_singleton)
  with assms(1) show ?thesis by (simp add: zip_star_def)
qed

lemma lines_of_samples:
  "concat (map (\<lambda>l. l @ [LF]) (concat (map (\<lambda>r. r @ [[]]) rs)))
     = concat (map (\<lambda>r. concat (map (\<lambda>l. l @ [LF]) r) @ [LF]) rs)"
  by (induction rs) simp_all

lemma set_join: "set (join [d] fs) \<subseteq> \<Union> (set ` set fs) \<union> {d}"
  by (induction "[d]" fs rule: join.induct) auto

lemma join_eq_Nil: "join [d] fs = [] \<Longrightarrow> \<forall>f\<in>set fs. f = []"
  by (induction "[d]" fs rule: join.induct) auto

lemma token_at_column:
  assumes dist: "distinct (map fst data)"
    and col: "col \<in> set (map fst data)"
    and i: "\<forall>c\<in>set (map snd data). i < length c \<and> j < length (c ! i)"
  shows "token_at data i j col = Inr (the (map_of data col) ! i ! j)"
proof -
  from col obtain samples where m: "map_of data col = Some samples"
    by (cases "map_of data col") (auto simp: map_of_eq_None_iff)
  then have "(col, samples) \<in> set data" by (rule map_of_SomeD)
  then have "samples \<in> set (map snd data)" by force
  with i have "i < length samples" and "j < length (samples ! i)" by auto
  with m show ?thesis by (simp add: token_at_def)
qed

lemma write_row_row:
  assumes dist: "distinct (map fst data)"
    and i: "\<forall>c\<in>set (map snd data). i < length c \<and> j < length (c ! i)"
  shows "write_row data (map fst data) delimiter i j
           = Inr (join delimiter (map (\<lambda>c. c ! i ! j) (map snd data)) @ [LF])"
proof -
  have "mapM_err (token_at data i j) (map fst data)
          = Inr (map (\<lambda>col. the (map_of data col) ! i ! j) (map fst data))"
    using dist i by (intro mapM_err_total ballI token_at_column) auto
  also have "map (\<lambda>col. the (map_of data col) ! i ! j) (map fst data)
          = map (\<lambda>c. c ! i ! j) (map (\<lambda>col. the (map_of data col)) (map fst data))"
    by (simp add: comp_def)
  also have "\<dots> = map (\<lambda>c. c ! i ! j) (map snd data)"
    using dist by (simp only: map_of_distinct_names)
  finally show ?thesis by (simp add: write_row_def)
qed

lemma write_sample_rows:
  assumes dist: "distinct (map fst data)"
    and i: "\<forall>c\<in>set (map snd data). i < length c \<and> length (c ! i) = length (first ! i)"
    and first: "first = hd (map snd data)"
  shows "write_sample data (map fst data) delimiter first i
           = Inr (concat (map (\<lambda>row. join delimiter row @ [LF]) (sample_rows (map snd data) i))
                  @ [LF])"
proof -
  have "mapM_err (write_row data (map fst data) delimiter i) [0..<length (first ! i)]
          = Inr (map (\<lambda>j. join delimiter (map (\<lambda>c. c ! i ! j) (map snd data)) @ [LF])
                   [0..<length (first ! i)])"
    using dist i by (intro mapM_err_total ballI write_row_row) auto
  then show ?thesis
    by (simp add: write_sample_def sample_rows_def first comp_def)
qed

lemma write_conll_text:
  assumes "writable d data"
  shows "write_conll data None [d]
           = Inr (concat (map (\<lambda>i. concat (map (\<lambda>row. join [d] row @ [LF])
                                              (sample_rows (map snd data) i)) @ [LF])
                           [0..<length (hd (map snd data))]))"
proof -
  let ?cols = "map snd data" and ?first = "hd (map snd data)"
  from assms have ne: "data \<noteq> []" and dist: "distinct (map fst data)"
    and shape: "\<forall>col\<in>set ?cols. length col = length ?first
                  \<and> (\<forall>i < length ?first. length (col ! i) = length (?first ! i))"
    by (simp_all add: writable_def Let_def)
  obtain k v rest where d: "data = (k, v) # rest" using ne by (cases data) auto
  then have key: "map fst data = k # map fst rest" and m: "map_of data k = Some ?first"
    by simp_all
  have "mapM_err (write_sample data (map fst data) [d] ?first) [0..<length ?first]
          = Inr (map (\<lambda>i. concat (map (\<lambda>row. join [d] row @ [LF]) (sample_rows ?cols i)) @ [LF])
                   [0..<length ?first])"
    using dist shape by (intro mapM_err_total ballI write_sample_rows) auto
  then show ?thesis
    by (simp add: write_conll_def key m)
qed

lemma join_good_row_not_Nil: "good_row d row \<Longrightarrow> join [d] row \<noteq> []"
proof
  assume g: "good_row d row" and "join [d] row = []"
  then have "\<forall>f\<in>set row. f = []" by (intro join_eq_Nil)
  then have "is_empty_line row" by (auto simp: is_empty_line_iff)
  with g show False by (simp add: good_row_def)
qed

lemma csv_fields_join: "good_row d row \<Longrightarrow> csv_fields d (join [d] row) = Inr row"
proof -
  assume g: "good_row d row"
  then have "split_on d (join [d] row) = row"
    by (intro split_on_join) (auto simp: good_row_def)
  moreover have "\<not> list_ex (\<lambda>f. field_size_limit < length f) row"
    using g by (auto simp: good_row_def list_ex_iff)
  ultimately show ?thesis
    using join_good_row_not_Nil [OF g] by (simp add: csv_fields_def)
qed

lemma join_good_row_chars:
  assumes "good_row d row" and "d \<noteq> LF" and "d \<noteq> CR"
  shows "LF \<notin> set (join [d] row) \<and> CR \<notin> set (join [d] row)"
  using assms set_join [of d row] by (auto simp: good_row_def)

lemma csv_reader_written:
  assumes d: "d \<noteq> LF" "d \<noteq> CR"
    and good: "\<forall>r\<in>set rs. \<forall>row\<in>set r. good_row d row"
  shows "csv_reader (concat (map (\<lambda>r. concat (map (\<lambda>row. join [d] row @ [LF]) r) @ [LF]) rs)) [d]
           = Inr (concat (map (\<lambda>r. r @ [[]]) rs))"
proof -
  let ?lines = "concat (map (\<lambda>r. r @ [[]]) (map (map (join [d])) rs))"
  let ?text = "concat (map (\<lambda>r. concat (map (\<lambda>row. join [d] row @ [LF]) r) @ [LF]) rs)"
  let ?g = "\<lambda>l. if l = [] then [] else split_on d l"
  have wr: "?text = concat (map (\<lambda>l. l @ [LF]) ?lines)"
    by (induction rs) (simp_all add: comp_def)
  have line: "l = [] \<or> (\<exists>row. good_row d row \<and> l = join [d] row)" if "l \<in> set ?lines" for l
    using that good by (fastforce split: if_splits)
  have noLF: "\<forall>l\<in>set ?lines. LF \<notin> set l"
    using line join_good_row_chars [OF _ d] by fastforce
  have noCR: "\<forall>l\<in>set ?lines. CR \<notin> set l"
    using line join_good_row_chars [OF _ d] by fastforce
  have "CR \<notin> set ?text"
    unfolding wr using noCR by auto
  then have un: "universal_newlines ?text = ?text" by (rule universal_newlines_no_CR)
  have fl: "file_lines ?text = ?lines"
    unfolding wr using noLF by (rule file_lines_of_lines)
  have "\<forall>l\<in>set ?lines. csv_fields d l = Inr (?g l)"
  proof
    fix l assume "l \<in> set ?lines"
    then consider "l = []" | row where "good_row d row" "l = join [d] row"
      using line by blast
    then show "csv_fields d l = Inr (?g l)"
    proof cases
      case 1
      then show ?thesis by (simp add: csv_fields_def)
    next
      case 2
      then have "csv_fields d l = Inr row" by (simp add: csv_fields_join)
      moreover have "?g l = row"
        using 2 join_good_row_not_Nil [of d row] split_on_join [of row d]
        by (simp add: good_row_def)
      ultimately show ?thesis by simp
    qed
  qed
  then have rows: "mapM_err (csv_fields d) ?lines = Inr (map ?g ?lines)"
    by (rule mapM_err_total)
  have "map ?g (map (join [d]) r) = r" if "r \<in> set rs" for r
  proof -
    have "\<forall>row\<in>set r. ?g (join [d] row) = row"
    proof
      fix row assume "row \<in> set r"
      with good that have g: "good_row d row" by blast
      then show "?g (join [d] row) = row"
        using join_good_row_not_Nil [OF g] split_on_join [of row d]
        by (simp add: good_row_def)
    qed
    then show ?thesis by (simp add: map_idI)
  qed
  then have "map ?g ?lines = concat (map (\<lambda>r. r @ [[]]) rs)"
    by (induction rs) simp_all
  with rows show ?thesis
    by (simp add: csv_reader_def un fl)
qed

lemma map_nth_upt: "map (\<lambda>k. f (xs ! k)) [0..<length xs] = map f xs"
  by (rule nth_equalityI) simp_all

lemma zip_star_sample_rows:
  assumes "cols \<noteq> []" and "length (hd cols ! i) \<noteq> 0"
    and "\<forall>c\<in>set cols. length (c ! i) = length (hd cols ! i)"
  shows "zip_star (sample_rows cols i) = map (\<lambda>c. c ! i) cols"
proof -
  let ?t = "length (hd cols ! i)"
  have ne: "sample_rows cols i \<noteq> []"
    using assms(2) by (simp add: sample_rows_def)
  have len: "\<forall>r\<in>set (sample_rows cols i). length r = length cols"
    by (auto simp: sample_rows_def)
  have "map (\<lambda>r. r ! k) (sample_rows cols i) = cols ! k ! i" if k: "k < length cols" for k
  proof -
    have "map (\<lambda>r. r ! k) (sample_rows cols i) = map (\<lambda>j. cols ! k ! i ! j) [0..<?t]"
      using k by (simp add: sample_rows_def comp_def)
    also have "?t = length (cols ! k ! i)"
      using assms(3) k by simp
    finally show ?thesis by (simp add: map_nth)
  qed
  then have "map (\<lambda>k. map (\<lambda>r. r ! k) (sample_rows cols i)) [0..<length cols]
               = map (\<lambda>k. cols ! k ! i) [0..<length cols]"
    by simp
  also have "\<dots> = map (\<lambda>c. c ! i) cols" by (rule map_nth_upt)
  finally show ?thesis
    using zip_star_rect [OF ne len] by simp
qed

lemma zip_star_samples:
  assumes "n \<noteq> 0" and "\<forall>c\<in>set cols. length c = n"
  shows "zip_star (map (\<lambda>i. map (\<lambda>c. c ! i) cols) [0..<n]) = cols"
proof -
  let ?rows = "map (\<lambda>i. map (\<lambda>c. c ! i) cols) [0..<n]"
  have ne: "?rows \<noteq> []" using assms(1) by simp
  have len: "\<forall>r\<in>set ?rows. length r = length cols" by auto
  have "map (\<lambda>r. r ! k) ?rows = cols ! k" if k: "k < length cols" for k
  proof -
    have nk: "n = length (cols ! k)" using assms(2) k by simp
    have "map (\<lambda>r. r ! k) ?rows = map (\<lambda>i. cols ! k ! i) [0..<n]"
      using k by (simp add: comp_def)
    also have "\<dots> = cols ! k" unfolding nk by (rule map_nth)
    finally show ?thesis .
  qed
  then have "map (\<lambda>k. map (\<lambda>r. r ! k) ?rows) [0..<length cols]
               = map (\<lambda>k. cols ! k) [0..<length cols]"
    by simp
  also have "\<dots> = cols" by (rule map_nth)
  finally show ?thesis
    using zip_star_rect [OF ne len] by simp
qed

lemma index_columns:
  "mapM_err
     (\<lambda>(colname, idx). case py_index (map snd data) idx of
                          Inl e \<Rightarrow> Inl e | Inr col \<Rightarrow> Inr (colname, col))
     (columns_of data) = Inr data"
proof -
  let ?g = "\<lambda>(colname :: string, idx). case py_index (map snd data) idx of
                          Inl e \<Rightarrow> Inl e | Inr col \<Rightarrow> Inr (colname, col)"
  let ?h = "\<lambda>(colname :: string, idx :: int). (colname, map snd data ! nat idx)"
  have "\<forall>x\<in>set (columns_of data). ?g x = Inr (?h x)"
    by (auto simp: columns_of_def in_set_zip py_index_nonneg)
  then have "mapM_err ?g (columns_of data) = Inr (map ?h (columns_of data))"
    by (rule mapM_err_total)
  moreover have "map ?h (columns_of data) = data"
    by (rule nth_equalityI) (simp_all add: columns_of_def)
  ultimately show ?thesis by simp
qed

lemma writable_good_rows:
  assumes "writable d data" and i: "i < length (hd (map snd data))"
    and row: "row \<in> set (sample_rows (map snd data) i)"
  shows "good_row d row"
proof -
  let ?cols = "map snd data" and ?first = "hd (map snd data)"
  from row obtain j where j: "j < length (?first ! i)" and r: "row = map (\<lambda>c. c ! i ! j) ?cols"
    by (auto simp: sample_rows_def)
  from assms(1) have ne: "data \<noteq> []"
    and toks: "\<forall>col\<in>set ?cols. \<forall>i < length ?first.
                 length (col ! i) = length (?first ! i) \<and>
                 (\<forall>tok\<in>set (col ! i).
                    d \<notin> set tok \<and> LF \<notin> set tok \<and> CR \<notin> set tok
                    \<and> length tok \<le> field_size_limit)"
    and blank: "\<forall>i < length ?first. \<forall>row\<in>set (sample_rows ?cols i). \<not> is_empty_line row"
    by (simp_all add: writable_def Let_def)
  have "d \<notin> set tok \<and> LF \<notin> set tok \<and> CR \<notin> set tok \<and> length tok \<le> field_size_limit"
    if "tok \<in> set row" for tok
  proof -
    from that r obtain c where c: "c \<in> set ?cols" and t: "tok = c ! i ! j" by auto
    from toks c i have "length (c ! i) = length (?first ! i)" by blast
    with j t have "tok \<in> set (c ! i)" by simp
    with toks c i show ?thesis by blast
  qed
  moreover have "row \<noteq> []" using ne r by simp
  moreover have "\<not> is_empty_line row" using blank i row by blast
  ultimately show ?thesis by (simp add: good_row_def)
qed

text \<open>
  C1, as amended. A dataset that is writable with the delimiter \<open>d\<close> is written by
  \<open>write_conll\<close> without error, and \<open>read_conll\<close> on the written text, with the same
  delimiter and the column spec that names the columns in their order, returns the
  dataset: every token value, in the original order.
\<close>

theorem write_read_round_trip:
  assumes "writable d data"
  shows "\<exists>written. write_conll data None [d] = Inr written
           \<and> read_conll written (columns_of data) [d] = Inr data"
proof -
  let ?cols = "map snd data" and ?first = "hd (map snd data)"
  let ?n = "length ?first"
  let ?rs = "map (sample_rows ?cols) [0..<?n]"
  let ?W = "concat (map (\<lambda>r. concat (map (\<lambda>row. join [d] row @ [LF]) r) @ [LF]) ?rs)"
  from assms have ne: "data \<noteq> []" and d: "d \<noteq> LF" "d \<noteq> CR" and n: "?n \<noteq> 0"
    and shape: "\<forall>col\<in>set ?cols. length col = ?n
                  \<and> (\<forall>i < ?n. length (col ! i) = length (?first ! i))"
    and pos: "\<forall>i < ?n. ?first ! i \<noteq> []"
    by (simp_all add: writable_def Let_def)
  have w: "write_conll data None [d] = Inr ?W"
    using write_conll_text [OF assms] by (simp add: comp_def)
  have good: "\<forall>r\<in>set ?rs. \<forall>row\<in>set r. good_row d row"
    using writable_good_rows [OF assms] by auto
  have rd: "csv_reader ?W [d] = Inr (concat (map (\<lambda>r. r @ [[]]) ?rs))"
    using d good by (rule csv_reader_written)
  have "\<forall>r\<in>set ?rs. r \<noteq> [] \<and> (\<forall>row\<in>set r. \<not> is_empty_line row)"
    using good pos by (auto simp: good_row_def sample_rows_def)
  then have bl: "blocks (concat (map (\<lambda>r. r @ [[]]) ?rs)) = ?rs"
    by (rule blocks_concat)
  have "zip_star (sample_rows ?cols i) = map (\<lambda>c. c ! i) ?cols" if "i < ?n" for i
    using ne pos shape that by (intro zip_star_sample_rows) auto
  then have "map zip_star ?rs = map (\<lambda>i. map (\<lambda>c. c ! i) ?cols) [0..<?n]"
    by simp
  moreover have "zip_star (map (\<lambda>i. map (\<lambda>c. c ! i) ?cols) [0..<?n]) = ?cols"
    using n shape by (intro zip_star_samples) auto
  ultimately have tr: "zip_star (map zip_star ?rs) = ?cols"
    by (simp only:)
  have "read_conll ?W (columns_of data) [d] = Inr data"
    unfolding read_conll_unfold [OF rd] bl tr by (rule index_columns)
  with w show ?thesis by blast
qed

lemmas conll_write_eval =
  write_conll_def write_sample_def write_row_def token_at_def

theorem write_read_round_trip_witness:
  "write_conll [(''tok'', [[''a'', ''b''], [''c'']]), (''tag'', [[''X'', ''Y''], [''Z'']])] None ''|''
     = Inr (''a|X'' @ [LF] @ ''b|Y'' @ [LF, LF] @ ''c|Z'' @ [LF, LF])
   \<and> read_conll (''a|X'' @ [LF] @ ''b|Y'' @ [LF, LF] @ ''c|Z'' @ [LF, LF])
         [(''tok'', 0), (''tag'', 1)] ''|''
     = Inr [(''tok'', [[''a'', ''b''], [''c'']]), (''tag'', [[''X'', ''Y''], [''Z'']])]"
proof -
  let ?data = "[(''tok'', [[''a'', ''b''], [''c'']]), (''tag'', [[''X'', ''Y''], [''Z'']])]"
  have r0: "sample_rows [[[''a'', ''b''], [''c'']], [[''X'', ''Y''], [''Z'']]] 0
              = [[''a'', ''X''], [''b'', ''Y'']]"
    and r1: "sample_rows [[[''a'', ''b''], [''c'']], [[''X'', ''Y''], [''Z'']]] (Suc 0)
              = [[''c'', ''Z'']]"
    by (simp_all add: sample_rows_def)
  have ne: "\<not> is_empty_line [''a'', ''X'']" "\<not> is_empty_line [''b'', ''Y'']"
    "\<not> is_empty_line [''c'', ''Z'']"
    by (simp_all add: is_empty_line_def strip_def is_space_def)
  have wr: "writable (CHR ''|'') ?data"
    by (simp add: writable_def field_size_limit_def All_less_Suc r0 r1 ne)
  have c: "columns_of ?data = [(''tok'', 0), (''tag'', 1)]"
    by (simp add: columns_of_def)
  have e: "write_conll ?data None ''|''
             = Inr (''a|X'' @ [LF] @ ''b|Y'' @ [LF, LF] @ ''c|Z'' @ [LF, LF])"
    by (simp add: conll_write_eval)
  from write_read_round_trip [OF wr] show ?thesis
    unfolding c e by simp
qed

text \<open>
  C1, as stated, fails on datasets whose columns have the same token count at each
  sample index: a token that contains the delimiter is read back as two fields, a token
  that is empty leaves an empty line and no block to index, and a sample without tokens
  is not read back.
\<close>

theorem write_read_counterexample:
  "write_conll [(''tok'', [[''a|b'']]), (''tag'', [[''X'']])] None ''|''
     = Inr (''a|b|X'' @ [LF, LF])
   \<and> read_conll (''a|b|X'' @ [LF, LF]) [(''tok'', 0), (''tag'', 1)] ''|''
     = Inr [(''tok'', [[''a'']]), (''tag'', [[''b'']])]
   \<and> write_conll [(''tok'', [[[]]])] None ''|'' = Inr [LF, LF]
   \<and> read_conll [LF, LF] [(''tok'', 0)] ''|'' = Inl IndexError
   \<and> write_conll [(''tok'', [[], [''a'']])] None ''|'' = Inr ([LF] @ ''a'' @ [LF, LF])
   \<and> read_conll ([LF] @ ''a'' @ [LF, LF]) [(''tok'', 0)] ''|'' = Inr [(''tok'', [[''a'']])]"
  by (simp add: conll_write_eval conll_eval)

end
